theory Spec2Isabelle
  imports Complex_Main "HOL-Library.Multiset"
begin

section \<open>The H2 / IQPE distance sweep of \<^verbatim>\<open>community/chemistry/h2_iqpe.ipynb\<close>\<close>

text \<open>
  The notebook builds a nested dictionary, submits one unit of work per (algorithm,
  distance) pair to a process pool, collects the results into three numpy arrays and
  plots them. The model below follows the code cells; the fourth, which draws the arrays
  as they are, is left out.

  \<^item> Python dictionaries are mutable objects that are passed by reference, so they live in
    an object store. The configuration is a dictionary of dictionaries of scalars: the
    inner dictionaries (\<open>subdict\<close>) and the top-level dictionaries (\<open>config\<close>) are kept
    in two stores, each addressed by position; allocation appends.
  \<^item> A dictionary is an association list in insertion order; assigning to an existing
    key keeps its position, assigning to a new key appends.
  \<^item> Floats are modelled by exact reals.
  \<^item> Every \<^verbatim>\<open>raise\<close> is a value of type \<open>error\<close>.
  \<^item> The code that is not in the repository (the solver, the rendering of a float as
    text, the order in which \<^verbatim>\<open>as_completed\<close> yields) is a parameter, \<open>extern\<close>.
\<close>

subsection \<open>Values\<close>

datatype error =
    KeyError string
  | IndexError
  | ValueError
  | BadReference
  | SolverError string

datatype scalar = Str string | Num int

type_synonym addr = nat
type_synonym subdict = "(string \<times> scalar) list"
type_synonym config = "(string \<times> addr) list"
type_synonym backend = "string option"

text \<open>\<^verbatim>\<open>dict[k] = v\<close>\<close>

fun dict_set :: "'k \<Rightarrow> 'v \<Rightarrow> ('k \<times> 'v) list \<Rightarrow> ('k \<times> 'v) list" where
  "dict_set k v [] = [(k, v)]"
| "dict_set k v ((k', v') # kvs) =
     (if k' = k then (k, v) # kvs else (k', v') # dict_set k v kvs)"

text \<open>
  A future is the object \<^verbatim>\<open>executor.submit\<close> returns. It is identified by \<open>fid\<close> (its
  position in the list \<^verbatim>\<open>futures\<close>), remembers the arguments of the submitted call, and
  holds what \<^verbatim>\<open>future.result()\<close> will return or raise.
\<close>

record future =
  fid :: nat
  arg_i :: nat
  arg_dict :: addr
  arg_d :: real
  arg_backend :: backend
  arg_algorithm :: addr
  outcome :: "error + nat \<times> real \<times> real \<times> real"

text \<open>
  The library calls whose code is outside the repository: \<^verbatim>\<open>QiskitChemistry().run\<close>, which
  reads the dictionary it is given (the contents of every inner dictionary, in key order) and the
  backend, and returns a result dictionary or raises; \<^verbatim>\<open>str\<close> of a float, used by
  \<^verbatim>\<open>molecule.format\<close>; and \<^verbatim>\<open>concurrent.futures.as_completed\<close>, whose order depends on
  timing.
\<close>

record extern =
  solver_run :: "(string \<times> subdict) list \<Rightarrow> backend \<Rightarrow> error + (string \<times> real) list"
  float_str :: "real \<Rightarrow> string"
  as_completed :: "future list \<Rightarrow> future list"

text \<open>
  The state of the notebook: the two object stores, the three result arrays (an entry
  that \<^verbatim>\<open>np.empty\<close> left uninitialised is \<open>None\<close>), the list \<^verbatim>\<open>futures\<close>, and two
  observation logs: the calls made to the solver, and the calls made to
  \<^verbatim>\<open>future.result()\<close> as pairs of the loop variable \<open>j\<close> and the future's \<open>fid\<close>.
\<close>

record state =
  subdicts :: "subdict list"
  dicts :: "config list"
  energies :: "real option list list"
  hf_energies :: "real option list"
  distances :: "real option list"
  futures :: "future list"
  solver_calls :: "((string \<times> subdict) list \<times> backend) list"
  taken :: "(nat \<times> nat) list"

subsection \<open>Cell 1: configuration, algorithms, backends, arrays\<close>

definition qiskit_chemistry_dict :: addr where
  "qiskit_chemistry_dict = 0"

definition molecule_format :: "string \<Rightarrow> string" where
  "molecule_format x = ''H .0 .0 -'' @ x @ ''; H .0 .0 '' @ x"

definition algorithms :: "addr list" where
  "algorithms = [5, 6]"

definition backends :: "backend list" where
  "backends = [Some ''qasm_simulator'', None]"

definition start :: real where
  "start = 1 / 2"

definition by_step :: real where
  "by_step = 1 / 2"

definition steps :: nat where
  "steps = 20"

definition init :: state where
  "init =
    \<lparr> subdicts =
        [ [(''name'', Str ''PYSCF'')],
          [(''atom'', Str ''''), (''basis'', Str ''sto3g'')],
          [(''name'', Str ''hamiltonian''), (''transformation'', Str ''full''),
           (''qubit_mapping'', Str ''parity'')],
          [(''name'', Str '''')],
          [(''name'', Str ''HartreeFock'')],
          [(''name'', Str ''IQPE''), (''num_iterations'', Num 16),
           (''num_time_slices'', Num 3000), (''expansion_mode'', Str ''trotter''),
           (''expansion_order'', Num 1)],
          [(''name'', Str ''ExactEigensolver'')] ],
      dicts =
        [ [(''driver'', 0), (''PYSCF'', 1), (''operator'', 2), (''algorithm'', 3),
           (''initial_state'', 4)] ],
      energies = replicate (length algorithms) (replicate (steps + 1) None),
      hf_energies = replicate (steps + 1) None,
      distances = replicate (steps + 1) None,
      futures = [],
      solver_calls = [],
      taken = [] \<rparr>"

text \<open>What a reader of the dictionary at top-level address \<open>c\<close> sees.\<close>

fun contents :: "subdict list \<Rightarrow> config \<Rightarrow> error + (string \<times> subdict) list" where
  "contents ss [] = Inr []"
| "contents ss ((k, a) # es) =
     (if a < length ss then
        (case contents ss es of
           Inl e \<Rightarrow> Inl e
         | Inr r \<Rightarrow> Inr ((k, ss ! a) # r))
      else Inl BadReference)"

definition read_dict :: "state \<Rightarrow> addr \<Rightarrow> error + (string \<times> subdict) list" where
  "read_dict s c =
     (if c < length (dicts s) then contents (subdicts s) (dicts s ! c) else Inl BadReference)"

subsection \<open>Cell 2: the unit of work\<close>

text \<open>
  \<^verbatim>\<open>
  def subrountine(i, qiskit_chemistry_dict, d, backend, algorithm):
      solver = QiskitChemistry()
      qiskit_chemistry_dict['PYSCF']['atom'] = molecule.format(d/2)
      qiskit_chemistry_dict['algorithm'] = algorithm
      result = solver.run(qiskit_chemistry_dict, backend=backend)
      return i, d, result['energy'], result['hf_energy']
  \<close>
  The dictionary and the algorithm are references; the function mutates the store and
  returns the tuple or the exception, together with the new state.
\<close>

definition subrountine ::
  "extern \<Rightarrow> nat \<Rightarrow> addr \<Rightarrow> real \<Rightarrow> backend \<Rightarrow> addr \<Rightarrow> state
    \<Rightarrow> (error + nat \<times> real \<times> real \<times> real) \<times> state" where
  "subrountine ext i c d backend algorithm s =
    (if length (dicts s) \<le> c then (Inl BadReference, s)
     else case map_of (dicts s ! c) ''PYSCF'' of
       None \<Rightarrow> (Inl (KeyError ''PYSCF''), s)
     | Some p \<Rightarrow>
        if length (subdicts s) \<le> p then (Inl BadReference, s)
        else
          let s1 = s\<lparr>subdicts := (subdicts s)
                      [p := dict_set ''atom'' (Str (molecule_format (float_str ext (d / 2))))
                              (subdicts s ! p)]\<rparr>;
              s2 = s1\<lparr>dicts := (dicts s1)
                      [c := dict_set ''algorithm'' algorithm (dicts s1 ! c)]\<rparr>
          in case read_dict s2 c of
               Inl e \<Rightarrow> (Inl e, s2)
             | Inr cfg \<Rightarrow>
                let s3 = s2\<lparr>solver_calls := solver_calls s2 @ [(cfg, backend)]\<rparr>
                in case solver_run ext cfg backend of
                     Inl e \<Rightarrow> (Inl e, s3)
                   | Inr result \<Rightarrow>
                      (case map_of result ''energy'' of
                         None \<Rightarrow> (Inl (KeyError ''energy''), s3)
                       | Some energy \<Rightarrow>
                          (case map_of result ''hf_energy'' of
                             None \<Rightarrow> (Inl (KeyError ''hf_energy''), s3)
                           | Some hf_energy \<Rightarrow> (Inr (i, d, energy, hf_energy), s3))))"

subsection \<open>Cell 3: the sweep\<close>

text \<open>
  \<^verbatim>\<open>copy.deepcopy\<close> of a top-level dictionary: a new top-level dictionary whose values are
  new inner dictionaries with the same scalars. The memo (source address, copy address)
  makes two keys that share an inner dictionary share its copy, as Python's does.
\<close>

fun deepcopy_items ::
  "subdict list \<Rightarrow> (addr \<times> addr) list \<Rightarrow> config
    \<Rightarrow> error + subdict list \<times> (addr \<times> addr) list \<times> config" where
  "deepcopy_items ss memo [] = Inr (ss, memo, [])"
| "deepcopy_items ss memo ((k, a) # es) =
     (case map_of memo a of
        Some a' \<Rightarrow>
          (case deepcopy_items ss memo es of
             Inl e \<Rightarrow> Inl e
           | Inr (ss', memo', es') \<Rightarrow> Inr (ss', memo', (k, a') # es'))
      | None \<Rightarrow>
          if a < length ss then
            (case deepcopy_items (ss @ [ss ! a]) ((a, length ss) # memo) es of
               Inl e \<Rightarrow> Inl e
             | Inr (ss', memo', es') \<Rightarrow> Inr (ss', memo', (k, length ss) # es'))
          else Inl BadReference)"

definition deepcopy :: "addr \<Rightarrow> state \<Rightarrow> (error + addr) \<times> state" where
  "deepcopy c s =
    (if length (dicts s) \<le> c then (Inl BadReference, s)
     else case deepcopy_items (subdicts s) [] (dicts s ! c) of
       Inl e \<Rightarrow> (Inl e, s)
     | Inr (ss, memo, es) \<Rightarrow>
         (Inr (length (dicts s)), s\<lparr>subdicts := ss, dicts := dicts s @ [es]\<rparr>))"

text \<open>
  One pass of the inner \<^verbatim>\<open>for i in range(steps+1)\<close>:
  \<^verbatim>\<open>
  d = start + i*by/steps
  future = executor.submit(subrountine, i, copy.deepcopy(qiskit_chemistry_dict), d,
                           backend, algorithm)
  futures.append(future)
  \<close>
  The units of work do not communicate, so the model runs each unit when it is submitted
  and keeps what it returned or raised in the future. The pool runs the unit in another
  process on a pickled copy of its arguments; the model runs it on the driver's own store,
  where a write through a shared reference would be visible.
\<close>

definition submit ::
  "extern \<Rightarrow> addr \<Rightarrow> backend \<Rightarrow> nat \<Rightarrow> state \<Rightarrow> error \<times> state + state" where
  "submit ext algorithm backend i s =
    (let d = start + real i * by_step / real steps
     in case deepcopy qiskit_chemistry_dict s of
          (Inl e, s1) \<Rightarrow> Inl (e, s1)
        | (Inr c, s1) \<Rightarrow>
            (case subrountine ext i c d backend algorithm s1 of
               (r, s2) \<Rightarrow>
                 Inr (s2\<lparr>futures := futures s2 @
                       [\<lparr>fid = length (futures s2), arg_i = i, arg_dict = c, arg_d = d,
                         arg_backend = backend, arg_algorithm = algorithm,
                         outcome = r\<rparr>]\<rparr>)))"

fun submit_loop ::
  "extern \<Rightarrow> addr \<Rightarrow> backend \<Rightarrow> nat list \<Rightarrow> state \<Rightarrow> error \<times> state + state" where
  "submit_loop ext algorithm backend [] s = Inr s"
| "submit_loop ext algorithm backend (i # is) s =
     (case submit ext algorithm backend i s of
        Inl x \<Rightarrow> Inl x
      | Inr s1 \<Rightarrow> submit_loop ext algorithm backend is s1)"

text \<open>
  The aggregation loop, over the futures in the order \<^verbatim>\<open>as_completed\<close> yields them:
  \<^verbatim>\<open>
  i, d, energy, hf_energy = future.result()
  energies[j][i] = energy
  hf_energies[i] = hf_energy
  distances[i] = d
  \<close>
  \<^verbatim>\<open>future.result()\<close> re-raises what the unit raised; an index outside an array raises
  IndexError. An exception leaves the loop with the state as it is at that point.
\<close>

definition store_result ::
  "nat \<Rightarrow> nat \<times> real \<times> real \<times> real \<Rightarrow> state \<Rightarrow> error \<times> state + state" where
  "store_result j r s =
    (case r of (i, d, energy, hf_energy) \<Rightarrow>
       if j < length (energies s) \<and> i < length (energies s ! j) then
         let s1 = s\<lparr>energies := (energies s)[j := (energies s ! j)[i := Some energy]]\<rparr>
         in if i < length (hf_energies s1) then
              let s2 = s1\<lparr>hf_energies := (hf_energies s1)[i := Some hf_energy]\<rparr>
              in if i < length (distances s2) then
                   Inr (s2\<lparr>distances := (distances s2)[i := Some d]\<rparr>)
                 else Inl (IndexError, s2)
            else Inl (IndexError, s1)
       else Inl (IndexError, s))"

fun collect :: "nat \<Rightarrow> future list \<Rightarrow> state \<Rightarrow> error \<times> state + state" where
  "collect j [] s = Inr s"
| "collect j (f # fs) s =
     (let s1 = s\<lparr>taken := taken s @ [(j, fid f)]\<rparr>
      in case outcome f of
           Inl e \<Rightarrow> Inl (e, s1)
         | Inr r \<Rightarrow>
             (case store_result j r s1 of
                Inl x \<Rightarrow> Inl x
              | Inr s2 \<Rightarrow> collect j fs s2))"

text \<open>
  The outer \<^verbatim>\<open>for j in range(len(algorithms))\<close>:
  \<^verbatim>\<open>
  algorithm = algorithms[j]
  backend = backends[j]
  \<close>
  then the submissions for this algorithm, then the aggregation loop over the whole list
  \<^verbatim>\<open>futures\<close>, which is created once before the outer loop and only ever appended to.
\<close>

fun sweep_loop :: "extern \<Rightarrow> nat list \<Rightarrow> state \<Rightarrow> error \<times> state + state" where
  "sweep_loop ext [] s = Inr s"
| "sweep_loop ext (j # js) s =
     (if length algorithms \<le> j \<or> length backends \<le> j then Inl (IndexError, s)
      else case submit_loop ext (algorithms ! j) (backends ! j) [0..<steps + 1] s of
        Inl x \<Rightarrow> Inl x
      | Inr s1 \<Rightarrow>
          (case collect j (as_completed ext (futures s1)) s1 of
             Inl x \<Rightarrow> Inl x
           | Inr s2 \<Rightarrow> sweep_loop ext js s2))"

definition sweep :: "extern \<Rightarrow> state \<Rightarrow> error \<times> state + state" where
  "sweep ext s = sweep_loop ext [0..<length algorithms] (s\<lparr>futures := []\<rparr>)"

subsection \<open>Cell 5: the difference plot\<close>

text \<open>
  \<^verbatim>\<open>np.subtract\<close> on two one-dimensional arrays: elementwise on equal lengths; an array
  of one entry is broadcast along the other; any other pair of lengths raises
  ValueError. The difference with an uninitialised entry is again unspecified.
\<close>

definition minus_entry :: "real option \<Rightarrow> real option \<Rightarrow> real option" where
  "minus_entry x y = (case (x, y) of (Some a, Some b) \<Rightarrow> Some (a - b) | _ \<Rightarrow> None)"

definition np_subtract :: "real option list \<Rightarrow> real option list \<Rightarrow> error + real option list" where
  "np_subtract xs ys =
    (if length xs = length ys then Inr (map2 minus_entry xs ys)
     else if length xs = 1 then Inr (map (\<lambda>y. minus_entry (hd xs) y) ys)
     else if length ys = 1 then Inr (map (\<lambda>x. minus_entry x (hd ys)) xs)
     else Inl ValueError)"

text \<open>
  \<^verbatim>\<open>pylab.plot(x, y, label=...)\<close> adds a curve to the figure, which is the list of the curves
  drawn so far, each with its x values, y values and label; it raises ValueError when x
  and y differ in length.
\<close>

type_synonym curve = "real option list \<times> real option list \<times> string"

definition pylab_plot ::
  "real option list \<Rightarrow> real option list \<Rightarrow> string \<Rightarrow> curve list
    \<Rightarrow> error \<times> curve list + curve list" where
  "pylab_plot xs ys label fig =
    (if length xs = length ys then Inr (fig @ [(xs, ys, label)]) else Inl (ValueError, fig))"

text \<open>
  \<^verbatim>\<open>
  pylab.plot(distances, np.subtract(hf_energies, energies[1]), label='Hartree-Fock')
  pylab.plot(distances, np.subtract(energies[0], energies[1]), label='IQPE')
  \<close>
  on an empty figure. An exception leaves the cell with the figure as it is at that
  point.
\<close>

definition difference_plot :: "state \<Rightarrow> error \<times> curve list + curve list" where
  "difference_plot s =
    (if length (energies s) \<le> 1 then Inl (IndexError, [])
     else case np_subtract (hf_energies s) (energies s ! 1) of
       Inl e \<Rightarrow> Inl (e, [])
     | Inr diff_hf \<Rightarrow>
         (case pylab_plot (distances s) diff_hf ''Hartree-Fock'' [] of
            Inl x \<Rightarrow> Inl x
          | Inr fig \<Rightarrow>
              (case np_subtract (energies s ! 0) (energies s ! 1) of
                 Inl e \<Rightarrow> Inl (e, fig)
               | Inr diff_iqpe \<Rightarrow> pylab_plot (distances s) diff_iqpe ''IQPE'' fig)))"

section \<open>Auxiliary definitions\<close>

subsection \<open>The units of the sweep, written out\<close>

text \<open>
  The definitions of this section are not code of the notebook. They name what the
  lemmas below show the code to compute, and the hypotheses on the external code.
  \<open>distance_at i\<close> is the distance of step \<open>i\<close>.
\<close>

definition distance_at :: "nat \<Rightarrow> real" where
  "distance_at i = start + real i * by_step / real steps"

text \<open>
  The assembled configuration with the molecule for distance \<open>d\<close> and the algorithm
  dictionary at address \<open>a\<close>.
\<close>

definition configured :: "extern \<Rightarrow> addr \<Rightarrow> real \<Rightarrow> (string \<times> subdict) list" where
  "configured ext a d =
     [ (''driver'', [(''name'', Str ''PYSCF'')]),
       (''PYSCF'', [(''atom'', Str (molecule_format (float_str ext (d / 2)))),
                    (''basis'', Str ''sto3g'')]),
       (''operator'', [(''name'', Str ''hamiltonian''), (''transformation'', Str ''full''),
                       (''qubit_mapping'', Str ''parity'')]),
       (''algorithm'', subdicts init ! a),
       (''initial_state'', [(''name'', Str ''HartreeFock'')]) ]"

text \<open>
  The dictionary the unit of algorithm \<open>j\<close> and step \<open>i\<close> hands to the solver.
\<close>

definition unit_dict :: "extern \<Rightarrow> nat \<Rightarrow> nat \<Rightarrow> (string \<times> subdict) list" where
  "unit_dict ext j i = configured ext (algorithms ! j) (distance_at i)"

text \<open>What that unit returns or raises, and the future that is appended for it.\<close>

definition unit_outcome :: "extern \<Rightarrow> nat \<Rightarrow> nat \<Rightarrow> error + nat \<times> real \<times> real \<times> real" where
  "unit_outcome ext j i =
     (case solver_run ext (unit_dict ext j i) (backends ! j) of
        Inl e \<Rightarrow> Inl e
      | Inr result \<Rightarrow>
          (case map_of result ''energy'' of
             None \<Rightarrow> Inl (KeyError ''energy'')
           | Some energy \<Rightarrow>
               (case map_of result ''hf_energy'' of
                  None \<Rightarrow> Inl (KeyError ''hf_energy'')
                | Some hf_energy \<Rightarrow> Inr (i, distance_at i, energy, hf_energy))))"

definition unit_future :: "extern \<Rightarrow> nat \<Rightarrow> nat \<Rightarrow> nat \<Rightarrow> future" where
  "unit_future ext n j i =
     \<lparr>fid = n, arg_i = i, arg_dict = Suc n, arg_d = distance_at i, arg_backend = backends ! j,
      arg_algorithm = algorithms ! j, outcome = unit_outcome ext j i\<rparr>"

text \<open>
  The invariant of the store during the sweep: the objects of the first cell are a
  prefix of both stores, there is one more top-level dictionary for every future, and
  each future's dictionary reads as what was handed to the solver for it.
\<close>

definition store_ok :: "state \<Rightarrow> bool" where
  "store_ok s \<longleftrightarrow>
     (\<exists>xs ys. subdicts s = subdicts init @ xs \<and> dicts s = dicts init @ ys \<and>
        length ys = length (futures s)) \<and>
     map (\<lambda>f. read_dict s (arg_dict f)) (futures s) = map (\<lambda>c. Inr (fst c)) (solver_calls s)"

text \<open>The futures one pass of the submission loop appends, the first with \<open>fid = n\<close>.\<close>

fun loop_futures :: "extern \<Rightarrow> nat \<Rightarrow> nat \<Rightarrow> nat list \<Rightarrow> future list" where
  "loop_futures ext n j [] = []"
| "loop_futures ext n j (i # is) = unit_future ext n j i # loop_futures ext (Suc n) j is"

text \<open>The state the sweep ends in, with or without an exception.\<close>

definition result_state :: "error \<times> state + state \<Rightarrow> state" where
  "result_state r = (case r of Inl (e, s) \<Rightarrow> s | Inr s \<Rightarrow> s)"

text \<open>
  The shape \<^verbatim>\<open>np.empty\<close> gave the arrays; the indices of an array that have been assigned;
  the step indices a list of futures returns; a future that returned an index in range.
\<close>

definition shaped :: "state \<Rightarrow> bool" where
  "shaped s \<longleftrightarrow>
     length (energies s) = length algorithms \<and>
     (\<forall>k < length (energies s). length (energies s ! k) = steps + 1) \<and>
     length (hf_energies s) = steps + 1 \<and>
     length (distances s) = steps + 1"

definition assigned :: "'a option list \<Rightarrow> nat set" where
  "assigned xs = {i. i < length xs \<and> xs ! i \<noteq> None}"

definition indices :: "future list \<Rightarrow> nat set" where
  "indices fs = {i. \<exists>f \<in> set fs. \<exists>d e h. outcome f = Inr (i, d, e, h)}"

definition succeeded :: "future \<Rightarrow> bool" where
  "succeeded f \<longleftrightarrow> (\<exists>i d e h. outcome f = Inr (i, d, e, h) \<and> i \<le> steps)"

text \<open>
  The futures of the first pass (IQPE), of the second pass (ExactEigensolver), and the
  solver calls of pass \<open>j\<close>.
\<close>

definition F0 :: "extern \<Rightarrow> future list" where
  "F0 ext = map (\<lambda>i. unit_future ext i 0 i) [0..<steps + 1]"

definition F1 :: "extern \<Rightarrow> future list" where
  "F1 ext = map (\<lambda>i. unit_future ext (steps + 1 + i) 1 i) [0..<steps + 1]"

definition calls :: "extern \<Rightarrow> nat \<Rightarrow> ((string \<times> subdict) list \<times> backend) list" where
  "calls ext j = map (\<lambda>i. (unit_dict ext j i, backends ! j)) [0..<steps + 1]"

subsection \<open>Hypotheses on the external code\<close>

text \<open>
  The solver never raises and its result has both energies; \<^verbatim>\<open>as_completed\<close> yields the
  futures it is given, all of them and no others, in any order.
\<close>

definition solver_returns :: "extern \<Rightarrow> bool" where
  "solver_returns ext \<longleftrightarrow>
     (\<forall>cfg b. \<exists>r e h. solver_run ext cfg b = Inr r \<and>
        map_of r ''energy'' = Some e \<and> map_of r ''hf_energy'' = Some h)"

definition yields_all :: "extern \<Rightarrow> bool" where
  "yields_all ext \<longleftrightarrow> (\<forall>fs. set (as_completed ext fs) = set fs)"

subsection \<open>Sample external code\<close>

text \<open>
  A solver that returns energy \<open>-1\<close> on a backend and \<open>-2\<close> without one, with futures
  yielded in submission order.
\<close>

definition sample_extern :: extern where
  "sample_extern =
     \<lparr> solver_run = (\<lambda>cfg b. Inr [(''energy'', if b = None then - 2 else - 1),
                                  (''hf_energy'', - 3)]),
       float_str = (\<lambda>x. if x = 1 / 4 then ''0.25'' else ''0.5''),
       as_completed = (\<lambda>fs. fs) \<rparr>"

text \<open>A solver that always raises.\<close>

definition failing_extern :: extern where
  "failing_extern =
     \<lparr> solver_run = (\<lambda>cfg b. Inl (SolverError ''no convergence'')),
       float_str = (\<lambda>x. ''0.25''),
       as_completed = (\<lambda>fs. fs) \<rparr>"

text \<open>
  The sample solver, with a completion order in which the first future of the second
  pass (which may have finished while the rest of its pass was being submitted) is yielded
  before the futures of the first pass.
\<close>

definition racing_extern :: extern where
  "racing_extern =
     \<lparr> solver_run = (\<lambda>cfg b. Inr [(''energy'', if b = None then - 2 else - 1),
                                  (''hf_energy'', - 3)]),
       float_str = (\<lambda>x. if x = 1 / 4 then ''0.25'' else ''0.5''),
       as_completed = (\<lambda>fs. if steps + 1 < length fs
                          then fs ! (steps + 1) # take (steps + 1) fs @ drop (steps + 2) fs
                          else fs) \<rparr>"

section \<open>Properties\<close>

subsection \<open>Submitting one unit\<close>

text \<open>
  On a store that extends the store of the first cell, the deep copy of the shared
  dictionary is five new inner dictionaries and one new top-level dictionary; the unit
  then writes into these only.
\<close>

lemma deepcopy_shared:
  assumes "subdicts s = subdicts init @ xs" "dicts s = dicts init @ ys"
  shows "deepcopy qiskit_chemistry_dict s =
    (Inr (Suc (length ys)),
     s\<lparr>subdicts := subdicts s @ take 5 (subdicts init),
       dicts := dicts s @ [[(''driver'', 7 + length xs), (''PYSCF'', 8 + length xs),
          (''operator'', 9 + length xs), (''algorithm'', 10 + length xs),
          (''initial_state'', 11 + length xs)]]\<rparr>)"
  using assms
  by (simp add: deepcopy_def qiskit_chemistry_dict_def init_def nth_append)

lemma submit_shared:
  assumes "subdicts s = subdicts init @ xs" "dicts s = dicts init @ ys"
    "length (futures s) = length ys" "j < 2"
  shows "submit ext (algorithms ! j) (backends ! j) i s = Inr
    (s\<lparr>subdicts := subdicts s @
         [ [(''name'', Str ''PYSCF'')],
           [(''atom'', Str (molecule_format (float_str ext (distance_at i / 2)))),
            (''basis'', Str ''sto3g'')],
           [(''name'', Str ''hamiltonian''), (''transformation'', Str ''full''),
            (''qubit_mapping'', Str ''parity'')],
           [(''name'', Str '''')],
           [(''name'', Str ''HartreeFock'')] ],
       dicts := dicts s @ [[(''driver'', 7 + length xs), (''PYSCF'', 8 + length xs),
          (''operator'', 9 + length xs), (''algorithm'', algorithms ! j),
          (''initial_state'', 11 + length xs)]],
       solver_calls := solver_calls s @ [(unit_dict ext j i, backends ! j)],
       futures := futures s @ [unit_future ext (length (futures s)) j i]\<rparr>)"
proof -
  from \<open>j < 2\<close> have "j = 0 \<or> j = 1" by auto
  then show ?thesis
  proof
    assume "j = 0"
    then show ?thesis
      using assms
      by (simp add: submit_def deepcopy_shared[OF assms(1,2)] subrountine_def read_dict_def
          unit_future_def unit_outcome_def unit_dict_def configured_def distance_at_def algorithms_def init_def
          nth_append Let_def list_update_append
          split: sum.splits option.splits)
  next
    assume "j = 1"
    then show ?thesis
      using assms
      by (simp add: submit_def deepcopy_shared[OF assms(1,2)] subrountine_def read_dict_def
          unit_future_def unit_outcome_def unit_dict_def configured_def distance_at_def algorithms_def init_def
          nth_append Let_def list_update_append
          split: sum.splits option.splits)
  qed
qed

lemma result_state_simps [simp]:
  "result_state (Inl (e, s)) = s" "result_state (Inr s) = s"
  by (simp_all add: result_state_def)

lemma contents_append:
  "contents ss es = Inr x \<Longrightarrow> contents (ss @ zs) es = Inr x"
  by (induction es arbitrary: x) (auto simp: nth_append split: if_splits sum.splits)

lemma read_dict_append:
  assumes "read_dict s c = Inr x" "subdicts s' = subdicts s @ zs" "dicts s' = dicts s @ ws"
  shows "read_dict s' c = Inr x"
  using assms by (auto simp: read_dict_def nth_append contents_append split: if_splits)

lemma read_dict_new:
  assumes "subdicts s = subdicts init @ xs" "dicts s = dicts init @ ys"
    "length (futures s) = length ys" "j < 2"
  shows "read_dict
    (s\<lparr>subdicts := subdicts s @
         [ [(''name'', Str ''PYSCF'')],
           [(''atom'', Str (molecule_format (float_str ext (distance_at i / 2)))),
            (''basis'', Str ''sto3g'')],
           [(''name'', Str ''hamiltonian''), (''transformation'', Str ''full''),
            (''qubit_mapping'', Str ''parity'')],
           [(''name'', Str '''')],
           [(''name'', Str ''HartreeFock'')] ],
       dicts := dicts s @ [[(''driver'', 7 + length xs), (''PYSCF'', 8 + length xs),
          (''operator'', 9 + length xs), (''algorithm'', algorithms ! j),
          (''initial_state'', 11 + length xs)]],
       solver_calls := sc, futures := fs\<rparr>) (Suc (length (futures s))) =
    Inr (unit_dict ext j i)"
proof -
  from \<open>j < 2\<close> have "j = 0 \<or> j = 1" by auto
  then show ?thesis
    using assms(1-3)
    by (auto simp: read_dict_def unit_dict_def configured_def algorithms_def init_def nth_append)
qed

lemma store_ok_submit:
  assumes "store_ok s" "j < 2"
  shows "\<exists>s'. submit ext (algorithms ! j) (backends ! j) i s = Inr s' \<and> store_ok s' \<and>
           futures s' = futures s @ [unit_future ext (length (futures s)) j i] \<and>
           solver_calls s' = solver_calls s @ [(unit_dict ext j i, backends ! j)] \<and>
           energies s' = energies s \<and> hf_energies s' = hf_energies s \<and>
           distances s' = distances s \<and> taken s' = taken s"
proof -
  from assms(1) obtain xs ys where
    a: "subdicts s = subdicts init @ xs" and b: "dicts s = dicts init @ ys"
    and c: "length (futures s) = length ys"
    and m: "map (\<lambda>f. read_dict s (arg_dict f)) (futures s) =
            map (\<lambda>c. Inr (fst c)) (solver_calls s)"
    unfolding store_ok_def by auto
  define s' where "s' = s\<lparr>subdicts := subdicts s @
         [ [(''name'', Str ''PYSCF'')],
           [(''atom'', Str (molecule_format (float_str ext (distance_at i / 2)))),
            (''basis'', Str ''sto3g'')],
           [(''name'', Str ''hamiltonian''), (''transformation'', Str ''full''),
            (''qubit_mapping'', Str ''parity'')],
           [(''name'', Str '''')],
           [(''name'', Str ''HartreeFock'')] ],
       dicts := dicts s @ [[(''driver'', 7 + length xs), (''PYSCF'', 8 + length xs),
          (''operator'', 9 + length xs), (''algorithm'', algorithms ! j),
          (''initial_state'', 11 + length xs)]],
       solver_calls := solver_calls s @ [(unit_dict ext j i, backends ! j)],
       futures := futures s @ [unit_future ext (length (futures s)) j i]\<rparr>"
  have sub: "submit ext (algorithms ! j) (backends ! j) i s = Inr s'"
    unfolding s'_def by (rule submit_shared[OF a b c assms(2)])
  have ext: "\<exists>zs. subdicts s' = subdicts s @ zs" "\<exists>ws. dicts s' = dicts s @ ws"
    by (simp_all add: s'_def)
  have old: "read_dict s' (arg_dict f) = read_dict s (arg_dict f)" if "f \<in> set (futures s)" for f
  proof -
    from that have "read_dict s (arg_dict f) \<in> set (map (\<lambda>f. read_dict s (arg_dict f)) (futures s))"
      by simp
    then have "read_dict s (arg_dict f) \<in> set (map (\<lambda>c. Inr (fst c)) (solver_calls s))"
      unfolding m .
    then obtain x where x: "read_dict s (arg_dict f) = Inr x" by auto
    from ext obtain zs ws where "subdicts s' = subdicts s @ zs" "dicts s' = dicts s @ ws"
      by blast
    from read_dict_append[OF x this] x show ?thesis by simp
  qed
  have new: "read_dict s' (Suc (length (futures s))) = Inr (unit_dict ext j i)"
    unfolding s'_def by (rule read_dict_new[OF a b c assms(2)])
  have "map (\<lambda>f. read_dict s' (arg_dict f)) (futures s') =
        map (\<lambda>f. read_dict s (arg_dict f)) (futures s) @ [Inr (unit_dict ext j i)]"
    using old new by (simp add: s'_def unit_future_def)
  then have m': "map (\<lambda>f. read_dict s' (arg_dict f)) (futures s') =
        map (\<lambda>c. Inr (fst c)) (solver_calls s')"
    unfolding m by (simp add: s'_def)
  have "\<exists>xs' ys'. subdicts s' = subdicts init @ xs' \<and> dicts s' = dicts init @ ys' \<and>
        length ys' = length (futures s')"
    using a b c by (simp add: s'_def)
  with m' have "store_ok s'" unfolding store_ok_def by blast
  with sub show ?thesis by (simp add: s'_def)
qed

subsection \<open>The submission loop\<close>

lemma submit_loop_ok:
  assumes "store_ok s" "j < 2"
  shows "\<exists>s'. submit_loop ext (algorithms ! j) (backends ! j) is s = Inr s' \<and> store_ok s' \<and>
           futures s' = futures s @ loop_futures ext (length (futures s)) j is \<and>
           solver_calls s' = solver_calls s @ map (\<lambda>i. (unit_dict ext j i, backends ! j)) is \<and>
           energies s' = energies s \<and> hf_energies s' = hf_energies s \<and>
           distances s' = distances s \<and> taken s' = taken s"
  using assms(1)
proof (induction "is" arbitrary: s)
  case Nil
  then show ?case by simp
next
  case (Cons i "is")
  from store_ok_submit[OF Cons.prems assms(2), of ext i] obtain s1 where
    s1: "submit ext (algorithms ! j) (backends ! j) i s = Inr s1" "store_ok s1"
      "futures s1 = futures s @ [unit_future ext (length (futures s)) j i]"
      "solver_calls s1 = solver_calls s @ [(unit_dict ext j i, backends ! j)]"
      "energies s1 = energies s" "hf_energies s1 = hf_energies s"
      "distances s1 = distances s" "taken s1 = taken s"
    by blast
  from Cons.IH[OF s1(2)] obtain s' where
    s': "submit_loop ext (algorithms ! j) (backends ! j) is s1 = Inr s'" "store_ok s'"
      "futures s' = futures s1 @ loop_futures ext (length (futures s1)) j is"
      "solver_calls s' = solver_calls s1 @ map (\<lambda>i. (unit_dict ext j i, backends ! j)) is"
      "energies s' = energies s1" "hf_energies s' = hf_energies s1"
      "distances s' = distances s1" "taken s' = taken s1"
    by blast
  show ?case
    by (simp add: s1 s')
qed

lemma loop_futures_upt:
  "loop_futures ext n j [m..<m + k] = map (\<lambda>i. unit_future ext (n + i) j (m + i)) [0..<k]"
proof (induction k arbitrary: n m)
  case 0
  then show ?case by simp
next
  case (Suc k)
  have "[m..<m + Suc k] = m # [Suc m..<Suc m + k]"
    using upt_conv_Cons[of m "m + Suc k"] by simp
  moreover have "[0..<Suc k] = 0 # map Suc [0..<k]"
    using upt_conv_Cons[of 0 "Suc k"] by (simp add: map_Suc_upt del: upt_Suc)
  ultimately show ?case
    using Suc.IH[of "Suc n" "Suc m"] by (simp del: upt_Suc)
qed

subsection \<open>The aggregation loop\<close>

lemma assigned_update:
  "i < length xs \<Longrightarrow> assigned (xs[i := Some v]) = insert i (assigned xs)"
  by (auto simp: assigned_def nth_list_update)

lemma assigned_full:
  "assigned xs = {0..<length xs} \<Longrightarrow> None \<notin> set xs"
  by (auto simp: assigned_def in_set_conv_nth)

lemma store_result_ok:
  assumes "shaped s" "j < 2" "i \<le> steps"
  shows "store_result j (i, d, e, h) s = Inr
    (s\<lparr>energies := (energies s)[j := (energies s ! j)[i := Some e]],
       hf_energies := (hf_energies s)[i := Some h],
       distances := (distances s)[i := Some d]\<rparr>)"
  using assms by (simp add: store_result_def shaped_def algorithms_def)

lemma shaped_store:
  assumes "shaped s"
  shows "shaped (s\<lparr>energies := (energies s)[j := (energies s ! j)[i := Some e]],
       hf_energies := (hf_energies s)[i := Some h],
       distances := (distances s)[i := Some d]\<rparr>)"
proof -
  have "length ((energies s)[j := (energies s ! j)[i := Some e]] ! k) = steps + 1"
    if "k < length (energies s)" for k
  proof (cases "j = k")
    case True
    with that assms show ?thesis by (simp add: shaped_def)
  next
    case False
    with that assms show ?thesis by (simp add: shaped_def)
  qed
  then show ?thesis using assms by (simp add: shaped_def)
qed

lemma assigned_store:
  fixes e h d :: real
  assumes "shaped s" "j < 2" "i \<le> steps"
  defines "s' \<equiv> s\<lparr>energies := (energies s)[j := (energies s ! j)[i := Some e]],
       hf_energies := (hf_energies s)[i := Some h],
       distances := (distances s)[i := Some d]\<rparr>"
  shows "assigned (distances s') = insert i (assigned (distances s))"
    and "assigned (hf_energies s') = insert i (assigned (hf_energies s))"
    and "assigned (energies s' ! j) = insert i (assigned (energies s ! j))"
    and "k \<noteq> j \<Longrightarrow> energies s' ! k = energies s ! k"
    and "i' \<noteq> i \<Longrightarrow> energies s' ! j ! i' = energies s ! j ! i'"
  using assms by (simp_all add: shaped_def assigned_update algorithms_def)

lemma collect_append:
  "collect j (fs @ gs) s =
     (case collect j fs s of Inl x \<Rightarrow> Inl x | Inr s1 \<Rightarrow> collect j gs s1)"
  by (induction fs arbitrary: s) (simp_all add: Let_def split: sum.splits)

lemma store_result_frame:
  assumes "store_result j r s = Inr s' \<or> store_result j r s = Inl (e, s')"
  shows "subdicts s' = subdicts s \<and> dicts s' = dicts s \<and> futures s' = futures s \<and>
         solver_calls s' = solver_calls s \<and> taken s' = taken s"
  using assms by (auto simp: store_result_def Let_def split: prod.splits if_splits)

lemma collect_frame:
  assumes "collect j fs s = Inr s' \<or> collect j fs s = Inl (e, s')"
  shows "subdicts s' = subdicts s \<and> dicts s' = dicts s \<and> futures s' = futures s \<and>
         solver_calls s' = solver_calls s"
  using assms
proof (induction fs arbitrary: s)
  case Nil
  then show ?case by auto
next
  case (Cons f fs)
  let ?s1 = "s\<lparr>taken := taken s @ [(j, fid f)]\<rparr>"
  show ?case
  proof (cases "outcome f")
    case (Inl x)
    with Cons.prems show ?thesis by (auto simp: Let_def)
  next
    case (Inr r)
    show ?thesis
    proof (cases "store_result j r ?s1")
      case (Inl x)
      then obtain e2 s2 where x: "x = (e2, s2)" by (cases x)
      with Inl Inr Cons.prems have "s' = s2" by (auto simp: Let_def)
      with store_result_frame[of j r ?s1 s2 e2] Inl x show ?thesis by simp
    next
      case (Inr s2)
      with \<open>outcome f = Inr r\<close> Cons.prems
      have "collect j fs s2 = Inr s' \<or> collect j fs s2 = Inl (e, s')"
        by (auto simp: Let_def)
      from Cons.IH[OF this] store_result_frame[of j r ?s1 s2] Inr show ?thesis by simp
    qed
  qed
qed

lemma collect_result_state:
  "subdicts (result_state (collect j fs s)) = subdicts s"
  "dicts (result_state (collect j fs s)) = dicts s"
  "futures (result_state (collect j fs s)) = futures s"
  "solver_calls (result_state (collect j fs s)) = solver_calls s"
proof -
  have "subdicts (result_state (collect j fs s)) = subdicts s \<and>
        dicts (result_state (collect j fs s)) = dicts s \<and>
        futures (result_state (collect j fs s)) = futures s \<and>
        solver_calls (result_state (collect j fs s)) = solver_calls s"
  proof (cases "collect j fs s")
    case (Inl x)
    obtain e s' where "x = (e, s')" by (cases x)
    with Inl collect_frame[of j fs s s' e] show ?thesis by simp
  next
    case (Inr s')
    with collect_frame[of j fs s s'] show ?thesis by simp
  qed
  then show "subdicts (result_state (collect j fs s)) = subdicts s"
    "dicts (result_state (collect j fs s)) = dicts s"
    "futures (result_state (collect j fs s)) = futures s"
    "solver_calls (result_state (collect j fs s)) = solver_calls s"
    by simp_all
qed

lemma shaped_taken [simp]: "shaped (s\<lparr>taken := t\<rparr>) = shaped s"
  by (simp add: shaped_def)

lemma indices_Cons:
  "outcome f = Inr (i, d, e, h) \<Longrightarrow> indices (f # fs) = insert i (indices fs)"
  by (auto simp: indices_def)

lemma indices_Nil [simp]: "indices [] = {}"
  by (simp add: indices_def)

lemma collect_ok:
  assumes "j < 2" "shaped s" "\<forall>f \<in> set fs. succeeded f"
  shows "\<exists>s'. collect j fs s = Inr s' \<and> shaped s' \<and>
           taken s' = taken s @ map (\<lambda>f. (j, fid f)) fs \<and>
           assigned (distances s') = assigned (distances s) \<union> indices fs \<and>
           assigned (hf_energies s') = assigned (hf_energies s) \<union> indices fs \<and>
           assigned (energies s' ! j) = assigned (energies s ! j) \<union> indices fs \<and>
           (\<forall>k. k \<noteq> j \<longrightarrow> energies s' ! k = energies s ! k) \<and>
           (\<forall>i. i \<notin> indices fs \<longrightarrow> energies s' ! j ! i = energies s ! j ! i)"
  using assms(2,3)
proof (induction fs arbitrary: s)
  case Nil
  then show ?case by simp
next
  case (Cons f fs)
  from Cons.prems(2) obtain i d e h where
    f: "outcome f = Inr (i, d, e, h)" and i: "i \<le> steps"
    by (auto simp: succeeded_def)
  define s1 where "s1 = s\<lparr>taken := taken s @ [(j, fid f)]\<rparr>"
  define s2 where "s2 = s1\<lparr>energies := (energies s1)[j := (energies s1 ! j)[i := Some e]],
       hf_energies := (hf_energies s1)[i := Some h],
       distances := (distances s1)[i := Some d]\<rparr>"
  have sh1: "shaped s1" using Cons.prems(1) by (simp add: s1_def)
  have st: "store_result j (i, d, e, h) s1 = Inr s2"
    unfolding s2_def by (rule store_result_ok[OF sh1 assms(1) i])
  have sh2: "shaped s2" unfolding s2_def by (rule shaped_store[OF sh1])
  have a2: "assigned (distances s2) = insert i (assigned (distances s))"
    "assigned (hf_energies s2) = insert i (assigned (hf_energies s))"
    "assigned (energies s2 ! j) = insert i (assigned (energies s ! j))"
    "\<And>k. k \<noteq> j \<Longrightarrow> energies s2 ! k = energies s ! k"
    "\<And>i'. i' \<noteq> i \<Longrightarrow> energies s2 ! j ! i' = energies s ! j ! i'"
    using assigned_store[OF sh1 assms(1) i, where e=e and h=h and d=d] by (simp_all add: s2_def s1_def)
  have t2: "taken s2 = taken s @ [(j, fid f)]" by (simp add: s2_def s1_def)
  from Cons.prems(2) have "\<forall>g \<in> set fs. succeeded g" by simp
  from Cons.IH[OF sh2 this] obtain s' where
    s': "collect j fs s2 = Inr s'" "shaped s'"
      "taken s' = taken s2 @ map (\<lambda>f. (j, fid f)) fs"
      "assigned (distances s') = assigned (distances s2) \<union> indices fs"
      "assigned (hf_energies s') = assigned (hf_energies s2) \<union> indices fs"
      "assigned (energies s' ! j) = assigned (energies s2 ! j) \<union> indices fs"
      "\<forall>k. k \<noteq> j \<longrightarrow> energies s' ! k = energies s2 ! k"
      "\<forall>i. i \<notin> indices fs \<longrightarrow> energies s' ! j ! i = energies s2 ! j ! i"
    by blast
  have "collect j (f # fs) s = Inr s'"
    using f st s'(1) by (simp add: s1_def Let_def)
  moreover note indices_Cons[OF f, of fs]
  ultimately show ?case
    using s' a2 t2 by auto
qed

subsection \<open>The two passes of the outer loop\<close>

lemma store_ok_init: "store_ok (init\<lparr>futures := []\<rparr>)"
  by (simp add: store_ok_def init_def)

lemma shaped_init: "shaped (init\<lparr>futures := []\<rparr>)"
  by (auto simp: shaped_def init_def)

lemma round0:
  "\<exists>s1. submit_loop ext (algorithms ! 0) (backends ! 0) [0..<steps + 1] (init\<lparr>futures := []\<rparr>) = Inr s1 \<and>
     store_ok s1 \<and> shaped s1 \<and> futures s1 = F0 ext \<and> solver_calls s1 = calls ext 0 \<and>
     energies s1 = energies init \<and> hf_energies s1 = hf_energies init \<and>
     distances s1 = distances init \<and> taken s1 = []"
proof -
  have j: "(0::nat) < 2" by simp
  from submit_loop_ok[OF store_ok_init j, of ext "[0..<steps + 1]"] obtain s1 where
    s1: "submit_loop ext (algorithms ! 0) (backends ! 0) [0..<steps + 1] (init\<lparr>futures := []\<rparr>) = Inr s1" "store_ok s1"
      "futures s1 = futures (init\<lparr>futures := []\<rparr>) @
         loop_futures ext (length (futures (init\<lparr>futures := []\<rparr>))) 0 [0..<steps + 1]"
      "solver_calls s1 = solver_calls (init\<lparr>futures := []\<rparr>) @
         map (\<lambda>i. (unit_dict ext 0 i, backends ! 0)) [0..<steps + 1]"
      "energies s1 = energies (init\<lparr>futures := []\<rparr>)"
      "hf_energies s1 = hf_energies (init\<lparr>futures := []\<rparr>)"
      "distances s1 = distances (init\<lparr>futures := []\<rparr>)"
      "taken s1 = taken (init\<lparr>futures := []\<rparr>)"
    by blast
  have "futures s1 = F0 ext"
    using s1(3) loop_futures_upt[of ext 0 0 0 "steps + 1"] by (simp add: F0_def)
  moreover have "shaped s1"
    using shaped_init s1(5-7) by (simp add: shaped_def)
  moreover have "solver_calls s1 = calls ext 0" "taken s1 = []"
    using s1(4,8) by (simp_all add: calls_def init_def)
  ultimately show ?thesis using s1 by simp
qed

lemma length_F0 [simp]: "length (F0 ext) = steps + 1"
  by (simp add: F0_def)

lemma round1:
  assumes "store_ok s2" "futures s2 = F0 ext" "solver_calls s2 = calls ext 0"
  shows "\<exists>s3. submit_loop ext (algorithms ! 1) (backends ! 1) [0..<steps + 1] s2 = Inr s3 \<and>
     store_ok s3 \<and> futures s3 = F0 ext @ F1 ext \<and>
     solver_calls s3 = calls ext 0 @ calls ext 1 \<and>
     energies s3 = energies s2 \<and> hf_energies s3 = hf_energies s2 \<and>
     distances s3 = distances s2 \<and> taken s3 = taken s2"
proof -
  have j: "(1::nat) < 2" by simp
  from submit_loop_ok[OF assms(1) j, of ext "[0..<steps + 1]"] obtain s3 where
    s3: "submit_loop ext (algorithms ! 1) (backends ! 1) [0..<steps + 1] s2 = Inr s3" "store_ok s3"
      "futures s3 = futures s2 @ loop_futures ext (length (futures s2)) 1 [0..<steps + 1]"
      "solver_calls s3 = solver_calls s2 @
         map (\<lambda>i. (unit_dict ext 1 i, backends ! 1)) [0..<steps + 1]"
      "energies s3 = energies s2" "hf_energies s3 = hf_energies s2"
      "distances s3 = distances s2" "taken s3 = taken s2"
    by blast
  have "futures s3 = F0 ext @ F1 ext"
    using s3(3) assms(2) loop_futures_upt[of ext "steps + 1" 1 0 "steps + 1"]
    by (simp add: F1_def)
  moreover have "solver_calls s3 = calls ext 0 @ calls ext 1"
    using s3(4) assms(3) by (simp add: calls_def)
  ultimately show ?thesis using s3 by simp
qed

lemma sweep_unfold:
  "sweep ext init =
    (case submit_loop ext (algorithms ! 0) (backends ! 0) [0..<steps + 1] (init\<lparr>futures := []\<rparr>) of
       Inl x \<Rightarrow> Inl x
     | Inr s1 \<Rightarrow>
        (case collect 0 (as_completed ext (futures s1)) s1 of
           Inl x \<Rightarrow> Inl x
         | Inr s2 \<Rightarrow>
            (case submit_loop ext (algorithms ! 1) (backends ! 1) [0..<steps + 1] s2 of
               Inl x \<Rightarrow> Inl x
             | Inr s3 \<Rightarrow> collect 1 (as_completed ext (futures s3)) s3)))"
proof -
  have "[0..<length algorithms] = [0, 1]"
    by (simp add: algorithms_def upt_conv_Cons)
  moreover have "length algorithms = 2" "length backends = 2"
    by (simp_all add: algorithms_def backends_def)
  ultimately show ?thesis
    by (simp add: sweep_def split: sum.splits)
qed

lemma read_dict_collect:
  "read_dict (result_state (collect j fs s)) c = read_dict s c"
  by (simp add: read_dict_def collect_result_state)

lemma store_ok_collect:
  assumes "store_ok s"
  shows "store_ok (result_state (collect j fs s))"
  using assms by (simp add: store_ok_def collect_result_state read_dict_collect)

lemma sweep_char:
  "\<exists>s1. submit_loop ext (algorithms ! 0) (backends ! 0) [0..<steps + 1] (init\<lparr>futures := []\<rparr>) = Inr s1 \<and>
     store_ok s1 \<and> shaped s1 \<and> futures s1 = F0 ext \<and> solver_calls s1 = calls ext 0 \<and>
     energies s1 = energies init \<and> hf_energies s1 = hf_energies init \<and>
     distances s1 = distances init \<and> taken s1 = [] \<and>
     ((\<exists>x. collect 0 (as_completed ext (F0 ext)) s1 = Inl x \<and> sweep ext init = Inl x) \<or>
      (\<exists>s2 s3. collect 0 (as_completed ext (F0 ext)) s1 = Inr s2 \<and>
         submit_loop ext (algorithms ! 1) (backends ! 1) [0..<steps + 1] s2 = Inr s3 \<and>
         store_ok s3 \<and> futures s3 = F0 ext @ F1 ext \<and>
         solver_calls s3 = calls ext 0 @ calls ext 1 \<and>
         energies s3 = energies s2 \<and> hf_energies s3 = hf_energies s2 \<and>
         distances s3 = distances s2 \<and> taken s3 = taken s2 \<and>
         sweep ext init = collect 1 (as_completed ext (F0 ext @ F1 ext)) s3))"
proof -
  from round0[of ext] obtain s1 where
    s1: "submit_loop ext (algorithms ! 0) (backends ! 0) [0..<steps + 1] (init\<lparr>futures := []\<rparr>) = Inr s1"
      "store_ok s1" "shaped s1" "futures s1 = F0 ext" "solver_calls s1 = calls ext 0"
      "energies s1 = energies init" "hf_energies s1 = hf_energies init"
      "distances s1 = distances init" "taken s1 = []"
    by blast
  have unf: "sweep ext init =
     (case collect 0 (as_completed ext (F0 ext)) s1 of
           Inl x \<Rightarrow> Inl x
         | Inr s2 \<Rightarrow>
            (case submit_loop ext (algorithms ! 1) (backends ! 1) [0..<steps + 1] s2 of
               Inl x \<Rightarrow> Inl x
             | Inr s3 \<Rightarrow> collect 1 (as_completed ext (futures s3)) s3))"
    unfolding sweep_unfold s1(1) sum.case s1(4) ..
  show ?thesis
  proof (cases "collect 0 (as_completed ext (F0 ext)) s1")
    case (Inl x)
    then have "sweep ext init = Inl x"
      unfolding unf by simp
    with Inl s1 show ?thesis by blast
  next
    case (Inr s2)
    have ok2: "store_ok s2"
      using store_ok_collect[OF s1(2), of 0 "as_completed ext (F0 ext)"] Inr by simp
    have fr: "futures s2 = F0 ext" "solver_calls s2 = calls ext 0"
      using collect_result_state(3,4)[of 0 "as_completed ext (F0 ext)" s1] Inr s1
      by simp_all
    from round1[OF ok2 fr] obtain s3 where
      s3: "submit_loop ext (algorithms ! 1) (backends ! 1) [0..<steps + 1] s2 = Inr s3"
        "store_ok s3" "futures s3 = F0 ext @ F1 ext"
        "solver_calls s3 = calls ext 0 @ calls ext 1"
        "energies s3 = energies s2" "hf_energies s3 = hf_energies s2"
        "distances s3 = distances s2" "taken s3 = taken s2"
      by blast
    have "sweep ext init = collect 1 (as_completed ext (F0 ext @ F1 ext)) s3"
      unfolding unf Inr sum.case s3(1) s3(3) ..
    with Inr s1 s3 show ?thesis by blast
  qed
qed

text \<open>Whichever way the sweep ends.\<close>

lemma sweep_final:
  "store_ok (result_state (sweep ext init)) \<and>
   ((futures (result_state (sweep ext init)) = F0 ext \<and>
     solver_calls (result_state (sweep ext init)) = calls ext 0 \<and>
     (\<exists>x. sweep ext init = Inl x)) \<or>
    (futures (result_state (sweep ext init)) = F0 ext @ F1 ext \<and>
     solver_calls (result_state (sweep ext init)) = calls ext 0 @ calls ext 1))"
proof -
  from sweep_char[of ext] obtain s1 where
    s1: "store_ok s1" "futures s1 = F0 ext" "solver_calls s1 = calls ext 0"
    and alt: "(\<exists>x. collect 0 (as_completed ext (F0 ext)) s1 = Inl x \<and> sweep ext init = Inl x) \<or>
      (\<exists>s2 s3. collect 0 (as_completed ext (F0 ext)) s1 = Inr s2 \<and>
         store_ok s3 \<and> futures s3 = F0 ext @ F1 ext \<and>
         solver_calls s3 = calls ext 0 @ calls ext 1 \<and>
         sweep ext init = collect 1 (as_completed ext (F0 ext @ F1 ext)) s3)"
    by blast
  from alt show ?thesis
  proof
    assume "\<exists>x. collect 0 (as_completed ext (F0 ext)) s1 = Inl x \<and> sweep ext init = Inl x"
    then obtain x where c: "collect 0 (as_completed ext (F0 ext)) s1 = Inl x"
      and sw: "sweep ext init = Inl x" by auto
    have eq: "sweep ext init = collect 0 (as_completed ext (F0 ext)) s1"
      using c sw by simp
    have "store_ok (result_state (sweep ext init))"
      unfolding eq by (rule store_ok_collect[OF s1(1)])
    moreover have "futures (result_state (sweep ext init)) = F0 ext"
      unfolding eq by (simp add: collect_result_state s1)
    moreover have "solver_calls (result_state (sweep ext init)) = calls ext 0"
      unfolding eq by (simp add: collect_result_state s1)
    ultimately show ?thesis using sw by blast
  next
    assume "\<exists>s2 s3. collect 0 (as_completed ext (F0 ext)) s1 = Inr s2 \<and>
         store_ok s3 \<and> futures s3 = F0 ext @ F1 ext \<and>
         solver_calls s3 = calls ext 0 @ calls ext 1 \<and>
         sweep ext init = collect 1 (as_completed ext (F0 ext @ F1 ext)) s3"
    then obtain s3 where s3: "store_ok s3" "futures s3 = F0 ext @ F1 ext"
         "solver_calls s3 = calls ext 0 @ calls ext 1"
         "sweep ext init = collect 1 (as_completed ext (F0 ext @ F1 ext)) s3" by blast
    have "store_ok (result_state (sweep ext init))"
      unfolding s3(4) by (rule store_ok_collect[OF s3(1)])
    moreover have "futures (result_state (sweep ext init)) = F0 ext @ F1 ext"
      unfolding s3(4) by (simp add: collect_result_state s3)
    moreover have "solver_calls (result_state (sweep ext init)) = calls ext 0 @ calls ext 1"
      unfolding s3(4) by (simp add: collect_result_state s3)
    ultimately show ?thesis by blast
  qed
qed

subsection \<open>A sweep in which no unit raises\<close>

lemma unit_outcome_ok:
  assumes "solver_returns ext"
  shows "\<exists>e h. unit_outcome ext j i = Inr (i, distance_at i, e, h)"
proof -
  from assms obtain r e h where
    "solver_run ext (unit_dict ext j i) (backends ! j) = Inr r"
    "map_of r ''energy'' = Some e" "map_of r ''hf_energy'' = Some h"
    unfolding solver_returns_def by blast
  then show ?thesis by (simp add: unit_outcome_def)
qed

lemma indices_cong: "set fs = set gs \<Longrightarrow> indices fs = indices gs"
  by (simp add: indices_def)

lemma indices_append: "indices (fs @ gs) = indices fs \<union> indices gs"
  by (auto simp: indices_def)

lemma indices_units:
  assumes "solver_returns ext"
  shows "indices (map (\<lambda>i. unit_future ext (g i) j i) [m..<n]) = {m..<n}"
proof -
  have "(\<exists>d e h. outcome (unit_future ext (g i) j i) = Inr (i', d, e, h)) \<longleftrightarrow> i' = i" for i i'
    using unit_outcome_ok[OF assms, of j i] by (auto simp: unit_future_def)
  then show ?thesis
    by (auto simp: indices_def)
qed

lemma succeeded_units:
  assumes "solver_returns ext" "f \<in> set (map (\<lambda>i. unit_future ext (g i) j i) [0..<steps + 1])"
  shows "succeeded f"
proof -
  from assms(2) obtain i where i: "i < steps + 1" "f = unit_future ext (g i) j i"
    by (auto simp del: upt_Suc)
  with unit_outcome_ok[OF assms(1), of j i] show ?thesis
    by (auto simp: succeeded_def unit_future_def)
qed

lemma indices_F0: "solver_returns ext \<Longrightarrow> indices (F0 ext) = {0..<steps + 1}"
  unfolding F0_def by (rule indices_units)

lemma indices_F1: "solver_returns ext \<Longrightarrow> indices (F1 ext) = {0..<steps + 1}"
  unfolding F1_def by (rule indices_units)

lemma succeeded_F0: "solver_returns ext \<Longrightarrow> f \<in> set (F0 ext) \<Longrightarrow> succeeded f"
  unfolding F0_def by (rule succeeded_units)

lemma succeeded_F1: "solver_returns ext \<Longrightarrow> f \<in> set (F1 ext) \<Longrightarrow> succeeded f"
  unfolding F1_def by (rule succeeded_units)

lemma assigned_replicate [simp]: "assigned (replicate n None) = {}"
  by (simp add: assigned_def)

lemma unit_outcome_index:
  "unit_outcome ext j i = Inr (i', d, e, h) \<Longrightarrow> i' = i"
  by (auto simp: unit_outcome_def split: sum.splits option.splits)

lemma units_indexed:
  assumes "f \<in> set (F0 ext @ F1 ext)" "outcome f = Inr (i, d, e, h)"
  shows "i \<le> steps"
proof -
  from assms(1) obtain n j k where "k < steps + 1" "f = unit_future ext n j k"
    by (auto simp: F0_def F1_def simp del: upt_Suc)
  with assms(2) unit_outcome_index[of ext j k i d e h] show ?thesis
    by (simp add: unit_future_def)
qed

lemma units_succeeded:
  assumes "\<forall>f \<in> set (F0 ext @ F1 ext). \<exists>r. outcome f = Inr r"
    and "f \<in> set (F0 ext @ F1 ext)"
  shows "succeeded f"
proof -
  from assms obtain r where r: "outcome f = Inr r" by blast
  obtain i d e h where "r = (i, d, e, h)" by (cases r)
  with r units_indexed[OF assms(2)] show ?thesis
    by (auto simp: succeeded_def)
qed

lemma units_indices_pass:
  assumes "\<forall>i < steps + 1. \<exists>r. outcome (unit_future ext (g i) j i) = Inr r"
  shows "indices (map (\<lambda>i. unit_future ext (g i) j i) [0..<steps + 1]) = {0..<steps + 1}"
proof -
  have "(\<exists>d e h. outcome (unit_future ext (g i) j i) = Inr (i', d, e, h)) \<longleftrightarrow> i' = i"
    if "i < steps + 1" for i i'
  proof
    assume "\<exists>d e h. outcome (unit_future ext (g i) j i) = Inr (i', d, e, h)"
    then show "i' = i"
      using unit_outcome_index[of ext j i i'] by (auto simp: unit_future_def)
  next
    assume i': "i' = i"
    from assms that obtain r where r: "outcome (unit_future ext (g i) j i) = Inr r" by blast
    obtain k d e h where k: "r = (k, d, e, h)" by (cases r)
    with r unit_outcome_index[of ext j i k d e h] have "k = i"
      by (simp add: unit_future_def)
    with r k i' show "\<exists>d e h. outcome (unit_future ext (g i) j i) = Inr (i', d, e, h)"
      by auto
  qed
  then show ?thesis
    by (auto simp: indices_def simp del: upt_Suc)
qed

lemma units_indices:
  assumes "\<forall>f \<in> set (F0 ext @ F1 ext). \<exists>r. outcome f = Inr r"
  shows "indices (F0 ext) = {0..<steps + 1}" "indices (F1 ext) = {0..<steps + 1}"
proof -
  have "\<forall>i < steps + 1. \<exists>r. outcome (unit_future ext i 0 i) = Inr r"
    using assms by (auto simp: F0_def simp del: upt_Suc)
  then show "indices (F0 ext) = {0..<steps + 1}"
    unfolding F0_def by (rule units_indices_pass)
  have "\<forall>i < steps + 1. \<exists>r. outcome (unit_future ext (steps + 1 + i) 1 i) = Inr r"
    using assms by (auto simp: F1_def simp del: upt_Suc)
  then show "indices (F1 ext) = {0..<steps + 1}"
    unfolding F1_def by (rule units_indices_pass)
qed

lemma sweep_succeeds_units:
  assumes "yields_all ext" "\<forall>f \<in> set (F0 ext @ F1 ext). \<exists>r. outcome f = Inr r"
  shows "\<exists>s. sweep ext init = Inr s \<and> shaped s \<and> store_ok s \<and>
           futures s = F0 ext @ F1 ext \<and>
           solver_calls s = calls ext 0 @ calls ext 1 \<and>
           taken s = map (\<lambda>f. (0, fid f)) (as_completed ext (F0 ext)) @
                     map (\<lambda>f. (1, fid f)) (as_completed ext (F0 ext @ F1 ext)) \<and>
           assigned (distances s) = {0..<steps + 1} \<and>
           assigned (hf_energies s) = {0..<steps + 1} \<and>
           assigned (energies s ! 0) = {0..<steps + 1} \<and>
           assigned (energies s ! 1) = {0..<steps + 1}"
proof -
  have set0: "set (as_completed ext (F0 ext)) = set (F0 ext)"
    and set1: "set (as_completed ext (F0 ext @ F1 ext)) = set (F0 ext @ F1 ext)"
    using assms(1) by (simp_all add: yields_all_def)
  have ok0: "\<forall>f \<in> set (as_completed ext (F0 ext)). succeeded f"
    unfolding set0 using units_succeeded[OF assms(2)] by simp
  have ok1: "\<forall>f \<in> set (as_completed ext (F0 ext @ F1 ext)). succeeded f"
    unfolding set1 using units_succeeded[OF assms(2)] by blast
  have ix0: "indices (as_completed ext (F0 ext)) = {0..<steps + 1}"
    using indices_cong[OF set0] units_indices(1)[OF assms(2)] by simp
  have ix1: "indices (as_completed ext (F0 ext @ F1 ext)) = {0..<steps + 1}"
    using indices_cong[OF set1] units_indices[OF assms(2)]
    by (simp add: indices_append)
  from sweep_char[of ext] obtain s1 where
    s1: "store_ok s1" "shaped s1" "futures s1 = F0 ext" "solver_calls s1 = calls ext 0"
      "energies s1 = energies init" "hf_energies s1 = hf_energies init"
      "distances s1 = distances init" "taken s1 = []"
    and alt: "(\<exists>x. collect 0 (as_completed ext (F0 ext)) s1 = Inl x \<and> sweep ext init = Inl x) \<or>
      (\<exists>s2 s3. collect 0 (as_completed ext (F0 ext)) s1 = Inr s2 \<and>
         store_ok s3 \<and> futures s3 = F0 ext @ F1 ext \<and>
         solver_calls s3 = calls ext 0 @ calls ext 1 \<and>
         energies s3 = energies s2 \<and> hf_energies s3 = hf_energies s2 \<and>
         distances s3 = distances s2 \<and> taken s3 = taken s2 \<and>
         sweep ext init = collect 1 (as_completed ext (F0 ext @ F1 ext)) s3)"
    by blast
  have j0: "(0::nat) < 2" and j1: "(1::nat) < 2" by simp_all
  from collect_ok[OF j0 s1(2) ok0] obtain s2 where
    s2: "collect 0 (as_completed ext (F0 ext)) s1 = Inr s2" "shaped s2"
      "taken s2 = taken s1 @ map (\<lambda>f. (0, fid f)) (as_completed ext (F0 ext))"
      "assigned (distances s2) = assigned (distances s1) \<union> indices (as_completed ext (F0 ext))"
      "assigned (hf_energies s2) = assigned (hf_energies s1) \<union> indices (as_completed ext (F0 ext))"
      "assigned (energies s2 ! 0) = assigned (energies s1 ! 0) \<union> indices (as_completed ext (F0 ext))"
    by blast
  from alt s2(1) obtain s3 where
    s3: "store_ok s3" "futures s3 = F0 ext @ F1 ext"
      "solver_calls s3 = calls ext 0 @ calls ext 1"
      "energies s3 = energies s2" "hf_energies s3 = hf_energies s2"
      "distances s3 = distances s2" "taken s3 = taken s2"
      "sweep ext init = collect 1 (as_completed ext (F0 ext @ F1 ext)) s3"
    by auto
  have sh3: "shaped s3" using s2(2) s3(4-6) by (simp add: shaped_def)
  from collect_ok[OF j1 sh3 ok1] obtain s where
    s: "collect 1 (as_completed ext (F0 ext @ F1 ext)) s3 = Inr s" "shaped s"
      "taken s = taken s3 @ map (\<lambda>f. (1, fid f)) (as_completed ext (F0 ext @ F1 ext))"
      "assigned (distances s) = assigned (distances s3) \<union> indices (as_completed ext (F0 ext @ F1 ext))"
      "assigned (hf_energies s) = assigned (hf_energies s3) \<union> indices (as_completed ext (F0 ext @ F1 ext))"
      "assigned (energies s ! 1) = assigned (energies s3 ! 1) \<union> indices (as_completed ext (F0 ext @ F1 ext))"
      "\<forall>k. k \<noteq> 1 \<longrightarrow> energies s ! k = energies s3 ! k"
    by blast
  have e0: "energies s ! 0 = energies s2 ! 0" using s(7) s3(4) by simp
  have init_arr: "assigned (distances init) = {}" "assigned (hf_energies init) = {}"
    "assigned (energies init ! 0) = {}" "assigned (energies init ! 1) = {}"
    by (simp_all add: init_def algorithms_def del: replicate.simps)
  have "sweep ext init = Inr s" using s3(8) s(1) by simp
  moreover have "store_ok s"
    using store_ok_collect[OF s3(1), of 1 "as_completed ext (F0 ext @ F1 ext)"] s(1) by simp
  moreover have "futures s = F0 ext @ F1 ext" "solver_calls s = calls ext 0 @ calls ext 1"
    using collect_result_state(3,4)[of 1 "as_completed ext (F0 ext @ F1 ext)" s3] s(1) s3
    by simp_all
  moreover have "taken s = map (\<lambda>f. (0, fid f)) (as_completed ext (F0 ext)) @
                     map (\<lambda>f. (1, fid f)) (as_completed ext (F0 ext @ F1 ext))"
    using s(3) s3(7) s2(3) s1(8) by simp
  moreover have "assigned (distances s) = {0..<steps + 1}"
    using s(4) s3(6) s2(4) s1(7) ix0 ix1 init_arr by simp
  moreover have "assigned (hf_energies s) = {0..<steps + 1}"
    using s(5) s3(5) s2(5) s1(6) ix0 ix1 init_arr by simp
  moreover have "assigned (energies s ! 0) = {0..<steps + 1}"
    using e0 s2(6) s1(5) ix0 init_arr by simp
  moreover have "assigned (energies s ! 1) = {0..<steps + 1}"
  proof -
    have "length (energies s2 ! 1) = steps + 1"
      using s2(2) by (simp add: shaped_def algorithms_def)
    then have "assigned (energies s2 ! 1) \<subseteq> {0..<steps + 1}"
      by (auto simp: assigned_def)
    then show ?thesis using s(6) s3(4) ix1 by auto
  qed
  ultimately show ?thesis using s(2) by blast
qed

lemma solver_returns_units:
  assumes "solver_returns ext"
  shows "\<forall>f \<in> set (F0 ext @ F1 ext). \<exists>r. outcome f = Inr r"
proof
  fix f assume "f \<in> set (F0 ext @ F1 ext)"
  then have "succeeded f"
    using succeeded_F0[OF assms] succeeded_F1[OF assms] by auto
  then show "\<exists>r. outcome f = Inr r"
    unfolding succeeded_def by blast
qed

lemma sweep_succeeds:
  assumes "yields_all ext" "solver_returns ext"
  shows "\<exists>s. sweep ext init = Inr s \<and> shaped s \<and> store_ok s \<and>
           futures s = F0 ext @ F1 ext \<and>
           solver_calls s = calls ext 0 @ calls ext 1 \<and>
           taken s = map (\<lambda>f. (0, fid f)) (as_completed ext (F0 ext)) @
                     map (\<lambda>f. (1, fid f)) (as_completed ext (F0 ext @ F1 ext)) \<and>
           assigned (distances s) = {0..<steps + 1} \<and>
           assigned (hf_energies s) = {0..<steps + 1} \<and>
           assigned (energies s ! 0) = {0..<steps + 1} \<and>
           assigned (energies s ! 1) = {0..<steps + 1}"
  by (rule sweep_succeeds_units[OF assms(1) solver_returns_units[OF assms(2)]])

subsection \<open>The configuration and the submitted units\<close>

lemma sample_extern_ok: "yields_all sample_extern" "solver_returns sample_extern"
  by (simp_all add: yields_all_def solver_returns_def sample_extern_def)

text \<open>
  C5. The configuration assembled in the first cell names the driver PYSCF, the basis
  set sto3g, the operator hamiltonian with transformation full and qubit mapping parity,
  and the initial state HartreeFock; its molecule and algorithm name are still empty.
\<close>

theorem C5_shared_configuration:
  "read_dict init qiskit_chemistry_dict = Inr
     [ (''driver'', [(''name'', Str ''PYSCF'')]),
       (''PYSCF'', [(''atom'', Str ''''), (''basis'', Str ''sto3g'')]),
       (''operator'', [(''name'', Str ''hamiltonian''), (''transformation'', Str ''full''),
                       (''qubit_mapping'', Str ''parity'')]),
       (''algorithm'', [(''name'', Str '''')]),
       (''initial_state'', [(''name'', Str ''HartreeFock'')]) ]"
  by (simp add: read_dict_def init_def qiskit_chemistry_dict_def)

lemma sweep_Inr_final:
  assumes "sweep ext init = Inr s"
  shows "store_ok s" "futures s = F0 ext @ F1 ext" "solver_calls s = calls ext 0 @ calls ext 1"
  using sweep_final[of ext] assms by auto

lemma store_ok_nth:
  assumes "store_ok s" "a < length (subdicts init)"
  shows "subdicts s ! a = subdicts init ! a"
  using assms by (auto simp: store_ok_def nth_append)

lemma store_ok_shared:
  assumes "store_ok s"
  shows "take (length (subdicts init)) (subdicts s) = subdicts init"
    and "take (length (dicts init)) (dicts s) = dicts init"
    and "read_dict s qiskit_chemistry_dict = read_dict init qiskit_chemistry_dict"
  using assms
  by (auto simp: store_ok_def read_dict_def qiskit_chemistry_dict_def init_def)

lemma F0_F1_args:
  "map (\<lambda>f. (arg_algorithm f, arg_backend f, arg_i f, arg_d f, arg_dict f, fid f)) (F0 ext @ F1 ext) =
   map (\<lambda>i. (5, Some ''qasm_simulator'', i, distance_at i, Suc i, i)) [0..<steps + 1] @
   map (\<lambda>i. (6, None, i, distance_at i, Suc (steps + 1 + i), steps + 1 + i)) [0..<steps + 1]"
  by (simp add: F0_def F1_def unit_future_def algorithms_def backends_def comp_def del: upt_Suc)

text \<open>
  C3. A sweep that runs to completion has submitted 42 units of work: the 21 steps
  with the IQPE dictionary and the qasm_simulator backend, then the 21 steps with the
  ExactEigensolver dictionary and no backend, each with a dictionary of its own.
\<close>

theorem C3_forty_two_units:
  assumes "sweep ext init = Inr s"
  shows "length (futures s) = 42 \<and>
         map (\<lambda>f. (map_of (subdicts s ! arg_algorithm f) ''name'', arg_backend f, arg_i f))
             (futures s) =
           map (\<lambda>i. (Some (Str ''IQPE''), Some ''qasm_simulator'', i)) [0..<21] @
           map (\<lambda>i. (Some (Str ''ExactEigensolver''), None, i)) [0..<21] \<and>
         map arg_algorithm (futures s) = replicate 21 (algorithms ! 0) @ replicate 21 (algorithms ! 1) \<and>
         map arg_backend (futures s) = replicate 21 (backends ! 0) @ replicate 21 (backends ! 1) \<and>
         distinct (map arg_dict (futures s)) \<and> distinct (map fid (futures s))"
proof -
  note fin = sweep_Inr_final[OF assms]
  have n5: "subdicts s ! 5 = subdicts init ! 5" and n6: "subdicts s ! 6 = subdicts init ! 6"
    using store_ok_nth[OF fin(1)] by (simp_all add: init_def)
  have st: "steps + 1 = 21" by (simp add: steps_def)
  have len: "length (futures s) = 42"
    by (simp add: fin(2) F0_def F1_def steps_def)
  have args: "map (\<lambda>f. (arg_algorithm f, arg_backend f, arg_i f, arg_d f, arg_dict f, fid f)) (futures s) =
     map (\<lambda>i. (5, Some ''qasm_simulator'', i, distance_at i, Suc i, i)) [0..<21] @
     map (\<lambda>i. (6, None, i, distance_at i, Suc (21 + i), 21 + i)) [0..<21]"
    unfolding fin(2) F0_F1_args st ..
  have "map (\<lambda>f. (map_of (subdicts s ! arg_algorithm f) ''name'', arg_backend f, arg_i f)) (futures s) =
     map (\<lambda>(a, b, i, d, c, n). (map_of (subdicts s ! a) ''name'', b, i))
       (map (\<lambda>f. (arg_algorithm f, arg_backend f, arg_i f, arg_d f, arg_dict f, fid f)) (futures s))"
    by (simp add: comp_def)
  also have "\<dots> = map (\<lambda>i. (Some (Str ''IQPE''), Some ''qasm_simulator'', i)) [0..<21] @
           map (\<lambda>i. (Some (Str ''ExactEigensolver''), None, i)) [0..<21]"
    unfolding args by (simp add: comp_def n5 n6 init_def del: upt_Suc)
  finally have pairs: "map (\<lambda>f. (map_of (subdicts s ! arg_algorithm f) ''name'', arg_backend f, arg_i f)) (futures s) =
      map (\<lambda>i. (Some (Str ''IQPE''), Some ''qasm_simulator'', i)) [0..<21] @
           map (\<lambda>i. (Some (Str ''ExactEigensolver''), None, i)) [0..<21]" .
  have "map arg_algorithm (futures s) =
     map (\<lambda>(a, b, i, d, c, n). a)
       (map (\<lambda>f. (arg_algorithm f, arg_backend f, arg_i f, arg_d f, arg_dict f, fid f)) (futures s))"
    by (simp add: comp_def)
  also have "\<dots> = replicate 21 (algorithms ! 0) @ replicate 21 (algorithms ! 1)"
    unfolding args by (simp add: comp_def algorithms_def map_replicate_const del: upt_Suc replicate.simps)
  finally have algs: "map arg_algorithm (futures s) =
     replicate 21 (algorithms ! 0) @ replicate 21 (algorithms ! 1)" .
  have "map arg_backend (futures s) =
     map (\<lambda>(a, b, i, d, c, n). b)
       (map (\<lambda>f. (arg_algorithm f, arg_backend f, arg_i f, arg_d f, arg_dict f, fid f)) (futures s))"
    by (simp add: comp_def)
  also have "\<dots> = replicate 21 (backends ! 0) @ replicate 21 (backends ! 1)"
    unfolding args by (simp add: comp_def backends_def map_replicate_const del: upt_Suc replicate.simps)
  finally have backs: "map arg_backend (futures s) =
     replicate 21 (backends ! 0) @ replicate 21 (backends ! 1)" .
  have "map arg_dict (futures s) =
     map (\<lambda>(a, b, i, d, c, n). c)
       (map (\<lambda>f. (arg_algorithm f, arg_backend f, arg_i f, arg_d f, arg_dict f, fid f)) (futures s))"
    by (simp add: comp_def)
  also have "\<dots> = map Suc [0..<21] @ map (\<lambda>i. Suc (21 + i)) [0..<21]"
    unfolding args by (simp add: comp_def del: upt_Suc)
  finally have d1: "distinct (map arg_dict (futures s))"
    by (auto simp: distinct_map inj_on_def simp del: upt_Suc)
  have "map fid (futures s) =
     map (\<lambda>(a, b, i, d, c, n). n)
       (map (\<lambda>f. (arg_algorithm f, arg_backend f, arg_i f, arg_d f, arg_dict f, fid f)) (futures s))"
    by (simp add: comp_def)
  also have "\<dots> = map (\<lambda>i. i) [0..<21] @ map (\<lambda>i. 21 + i) [0..<21]"
    unfolding args by (simp add: comp_def del: upt_Suc)
  finally have d2: "distinct (map fid (futures s))"
    by (auto simp: distinct_map inj_on_def simp del: upt_Suc)
  show ?thesis using len pairs algs backs d1 d2 by blast
qed

theorem C3_forty_two_units_witness:
  "\<exists>s. sweep sample_extern init = Inr s \<and>
     length (futures s) = 42 \<and>
     map (\<lambda>f. (map_of (subdicts s ! arg_algorithm f) ''name'', arg_backend f, arg_i f))
         (futures s) =
       map (\<lambda>i. (Some (Str ''IQPE''), Some ''qasm_simulator'', i)) [0..<21] @
       map (\<lambda>i. (Some (Str ''ExactEigensolver''), None, i)) [0..<21]"
proof -
  from sweep_succeeds[OF sample_extern_ok] obtain s where
    s: "sweep sample_extern init = Inr s" by blast
  from C3_forty_two_units[OF s] s show ?thesis by blast
qed

lemma distance_at_exact: "distance_at i = real (20 + i) / 40"
  by (simp add: distance_at_def start_def by_step_def steps_def field_simps)

lemma upt_shift: "map (\<lambda>i. f (m + i)) [0..<n] = map f [m..<m + n]"
proof -
  have "[m..<m + n] = map (\<lambda>i. i + m) [0..<n]"
    by (simp add: map_add_upt add.commute)
  then show ?thesis by (simp add: comp_def add.commute)
qed

text \<open>
  C8. In a sweep that runs to completion, the distance submitted with step \<open>i\<close> is
  \<open>start + i * by / steps\<close>; in exact arithmetic these are the 21 values \<open>20/40, 21/40,
  \<dots>, 40/40\<close>, strictly increasing from \<open>1/2\<close> to \<open>1\<close> in increments of \<open>1/40\<close>, submitted
  in the same order for both algorithms.
\<close>

theorem C8_submitted_distances:
  assumes "sweep ext init = Inr s"
  shows "map (\<lambda>f. (arg_i f, arg_d f)) (futures s) =
           map (\<lambda>i. (i, start + real i * by_step / real steps)) ([0..<21] @ [0..<21]) \<and>
         map arg_d (futures s) =
           map (\<lambda>n. real n / 40) [20..<41] @ map (\<lambda>n. real n / 40) [20..<41] \<and>
         sorted_wrt (<) (map (\<lambda>n. real n / 40) [20..<41]) \<and>
         hd (map (\<lambda>n. real n / 40) [20..<41]) = 1 / 2 \<and>
         last (map (\<lambda>n. real n / 40) [20..<41]) = 1 \<and>
         map2 (\<lambda>b a. b - a) (tl (map (\<lambda>n. real n / 40) [20..<41]))
              (butlast (map (\<lambda>n. real n / 40) [20..<41])) = replicate 20 (1 / 40)"
proof -
  note fin = sweep_Inr_final[OF assms]
  have st: "steps + 1 = 21" by (simp add: steps_def)
  have args: "map (\<lambda>f. (arg_algorithm f, arg_backend f, arg_i f, arg_d f, arg_dict f, fid f)) (futures s) =
     map (\<lambda>i. (5, Some ''qasm_simulator'', i, distance_at i, Suc i, i)) [0..<21] @
     map (\<lambda>i. (6, None, i, distance_at i, Suc (21 + i), 21 + i)) [0..<21]"
    unfolding fin(2) F0_F1_args st ..
  have "map (\<lambda>f. (arg_i f, arg_d f)) (futures s) =
     map (\<lambda>(a, b, i, d, c, n). (i, d))
       (map (\<lambda>f. (arg_algorithm f, arg_backend f, arg_i f, arg_d f, arg_dict f, fid f)) (futures s))"
    by (simp add: comp_def)
  also have "\<dots> = map (\<lambda>i. (i, distance_at i)) ([0..<21] @ [0..<21])"
    unfolding args by (simp add: comp_def del: upt_Suc)
  finally have pairs: "map (\<lambda>f. (arg_i f, arg_d f)) (futures s) =
     map (\<lambda>i. (i, distance_at i)) ([0..<21] @ [0..<21])" .
  have one: "map (\<lambda>f. (arg_i f, arg_d f)) (futures s) =
           map (\<lambda>i. (i, start + real i * by_step / real steps)) ([0..<21] @ [0..<21])"
    using pairs by (simp add: distance_at_def del: upt_Suc)
  have "map arg_d (futures s) = map snd (map (\<lambda>f. (arg_i f, arg_d f)) (futures s))"
    by (simp add: comp_def)
  also have "\<dots> = map (\<lambda>i. real (20 + i) / 40) [0..<21] @ map (\<lambda>i. real (20 + i) / 40) [0..<21]"
    unfolding pairs by (simp add: comp_def distance_at_exact del: upt_Suc)
  also have "map (\<lambda>i. real (20 + i) / 40) [0..<21] = map (\<lambda>n. real n / 40) [20..<41]"
    using upt_shift[of "\<lambda>n. real n / 40" 20 21] by simp
  finally have two: "map arg_d (futures s) =
           map (\<lambda>n. real n / 40) [20..<41] @ map (\<lambda>n. real n / 40) [20..<41]" .
  have three: "sorted_wrt (<) (map (\<lambda>n. real n / 40) [20..<41])"
    by (simp add: sorted_wrt_map del: upt_Suc)
  have expl: "[20..<41] = [20, 21, 22, 23, 24, 25, 26, 27, 28, 29, 30, 31, 32, 33, 34, 35, 36,
      37, 38, 39, 40::nat]"
    by (simp add: upt_rec_numeral)
  have four: "hd (map (\<lambda>n. real n / 40) [20..<41]) = 1 / 2"
    "last (map (\<lambda>n. real n / 40) [20..<41]) = 1"
    "map2 (\<lambda>b a. b - a) (tl (map (\<lambda>n. real n / 40) [20..<41]))
              (butlast (map (\<lambda>n. real n / 40) [20..<41])) = replicate 20 (1 / 40)"
    unfolding expl by (simp_all add: numeral_eq_Suc)
  show ?thesis using one two three four by blast
qed

theorem C8_submitted_distances_witness:
  "\<exists>s. sweep sample_extern init = Inr s \<and>
     map arg_d (futures s) =
       map (\<lambda>n. real n / 40) [20..<41] @ map (\<lambda>n. real n / 40) [20..<41]"
proof -
  from sweep_succeeds[OF sample_extern_ok] obtain s where
    s: "sweep sample_extern init = Inr s" by blast
  from C8_submitted_distances[OF s] s show ?thesis by blast
qed

subsection \<open>The shared dictionary and the copies\<close>

lemma unit_dict_configured:
  "unit_dict ext j i = configured ext (algorithms ! j) (distance_at i)"
  by (simp add: unit_dict_def configured_def)

lemma calls_futures:
  "calls ext 0 = map (\<lambda>f. (configured ext (arg_algorithm f) (arg_d f), arg_backend f)) (F0 ext)"
  "calls ext 1 = map (\<lambda>f. (configured ext (arg_algorithm f) (arg_d f), arg_backend f)) (F1 ext)"
  by (simp_all add: calls_def F0_def F1_def unit_future_def unit_dict_configured comp_def
      del: upt_Suc)

lemma sweep_calls:
  "solver_calls (result_state (sweep ext init)) =
     map (\<lambda>f. (configured ext (arg_algorithm f) (arg_d f), arg_backend f))
       (futures (result_state (sweep ext init)))"
  using sweep_final[of ext] by (auto simp: calls_futures simp del: One_nat_def)

lemma sweep_copies:
  "map (\<lambda>f. read_dict (result_state (sweep ext init)) (arg_dict f))
       (futures (result_state (sweep ext init))) =
   map (\<lambda>f. Inr (configured ext (arg_algorithm f) (arg_d f)))
       (futures (result_state (sweep ext init)))"
proof -
  have "store_ok (result_state (sweep ext init))"
    using sweep_final[of ext] by simp
  then have "map (\<lambda>f. read_dict (result_state (sweep ext init)) (arg_dict f))
       (futures (result_state (sweep ext init))) =
     map (\<lambda>c. Inr (fst c)) (solver_calls (result_state (sweep ext init)))"
    by (simp add: store_ok_def)
  then show ?thesis unfolding sweep_calls by (simp add: comp_def)
qed

lemma sweep_arg_dicts:
  "qiskit_chemistry_dict \<notin> set (map arg_dict (futures (result_state (sweep ext init))))"
proof -
  have "0 \<notin> set (map arg_dict (F0 ext))" "0 \<notin> set (map arg_dict (F1 ext))"
    by (auto simp: F0_def F1_def unit_future_def simp del: upt_Suc)
  then show ?thesis
    using sweep_final[of ext] by (auto simp: qiskit_chemistry_dict_def)
qed

text \<open>
  C4. Whichever way the sweep ends, the objects of the first cell are as they were: the
  shared dictionary and every inner dictionary it refers to. No future was given the
  shared dictionary; each was given a dictionary of its own, which now holds the
  molecule and the algorithm of its unit.
\<close>

theorem C4_shared_dictionary_unchanged:
  "take (length (subdicts init)) (subdicts (result_state (sweep ext init))) = subdicts init \<and>
   take (length (dicts init)) (dicts (result_state (sweep ext init))) = dicts init \<and>
   read_dict (result_state (sweep ext init)) qiskit_chemistry_dict =
     read_dict init qiskit_chemistry_dict \<and>
   qiskit_chemistry_dict \<notin> set (map arg_dict (futures (result_state (sweep ext init)))) \<and>
   map (\<lambda>f. read_dict (result_state (sweep ext init)) (arg_dict f))
       (futures (result_state (sweep ext init))) =
     map (\<lambda>f. Inr (configured ext (arg_algorithm f) (arg_d f)))
       (futures (result_state (sweep ext init)))"
proof -
  have ok: "store_ok (result_state (sweep ext init))"
    using sweep_final[of ext] by simp
  show ?thesis
    using store_ok_shared[OF ok] sweep_arg_dicts[of ext] sweep_copies[of ext] by blast
qed

lemma subrountine_frame:
  "case subrountine ext i c d backend algorithm s of (r, s') \<Rightarrow>
     energies s' = energies s \<and> hf_energies s' = hf_energies s \<and>
     distances s' = distances s \<and> futures s' = futures s \<and> taken s' = taken s \<and>
     (s' = s \<or>
      (\<exists>p. map_of (dicts s ! c) ''PYSCF'' = Some p \<and>
           subdicts s' = (subdicts s)[p := dict_set ''atom''
               (Str (molecule_format (float_str ext (d / 2)))) (subdicts s ! p)] \<and>
           dicts s' = (dicts s)[c := dict_set ''algorithm'' algorithm (dicts s ! c)] \<and>
           (solver_calls s' = solver_calls s \<or>
            (\<exists>cfg. read_dict s' c = Inr cfg \<and>
                   solver_calls s' = solver_calls s @ [(cfg, backend)]))))"
  by (auto simp: subrountine_def Let_def read_dict_def split: option.splits sum.splits)

text \<open>
  C10. A unit of work changes nothing but the store, and there at most two entries: the
  value of \<open>atom\<close> in the inner dictionary under \<open>PYSCF\<close>, and the value of \<open>algorithm\<close> in
  the dictionary it was given. In the sweep, every dictionary the solver receives is the
  assembled configuration with these two entries replaced: the \<open>driver\<close>, \<open>operator\<close> and
  \<open>initial_state\<close> sections and the basis set are as in the first cell.
\<close>

theorem C10_unit_writes_two_entries:
  "(case subrountine ext i c d backend algorithm s of (r, s') \<Rightarrow>
     energies s' = energies s \<and> hf_energies s' = hf_energies s \<and>
     distances s' = distances s \<and> futures s' = futures s \<and> taken s' = taken s \<and>
     (s' = s \<or>
      (\<exists>p. map_of (dicts s ! c) ''PYSCF'' = Some p \<and>
           subdicts s' = (subdicts s)[p := dict_set ''atom''
               (Str (molecule_format (float_str ext (d / 2)))) (subdicts s ! p)] \<and>
           dicts s' = (dicts s)[c := dict_set ''algorithm'' algorithm (dicts s ! c)] \<and>
           (solver_calls s' = solver_calls s \<or>
            (\<exists>cfg. read_dict s' c = Inr cfg \<and>
                   solver_calls s' = solver_calls s @ [(cfg, backend)]))))) \<and>
   map fst (solver_calls (result_state (sweep ext init))) =
     map (\<lambda>f. configured ext (arg_algorithm f) (arg_d f))
       (futures (result_state (sweep ext init))) \<and>
   map (\<lambda>(cfg, b). (map fst cfg, map_of cfg ''driver'', map_of cfg ''operator'',
                    map_of cfg ''initial_state'',
                    map_option (\<lambda>p. (map fst p, map_of p ''basis'')) (map_of cfg ''PYSCF'')))
       (solver_calls (result_state (sweep ext init))) =
     replicate (length (solver_calls (result_state (sweep ext init))))
       ([''driver'', ''PYSCF'', ''operator'', ''algorithm'', ''initial_state''],
        Some [(''name'', Str ''PYSCF'')],
        Some [(''name'', Str ''hamiltonian''), (''transformation'', Str ''full''),
              (''qubit_mapping'', Str ''parity'')],
        Some [(''name'', Str ''HartreeFock'')],
        Some ([''atom'', ''basis''], Some (Str ''sto3g'')))"
proof -
  have "map fst (solver_calls (result_state (sweep ext init))) =
     map (\<lambda>f. configured ext (arg_algorithm f) (arg_d f))
       (futures (result_state (sweep ext init)))"
    unfolding sweep_calls by (simp add: comp_def)
  moreover
  have "map (\<lambda>(cfg, b). (map fst cfg, map_of cfg ''driver'', map_of cfg ''operator'',
                    map_of cfg ''initial_state'',
                    map_option (\<lambda>p. (map fst p, map_of p ''basis'')) (map_of cfg ''PYSCF'')))
       (solver_calls (result_state (sweep ext init))) =
     replicate (length (solver_calls (result_state (sweep ext init))))
       ([''driver'', ''PYSCF'', ''operator'', ''algorithm'', ''initial_state''],
        Some [(''name'', Str ''PYSCF'')],
        Some [(''name'', Str ''hamiltonian''), (''transformation'', Str ''full''),
              (''qubit_mapping'', Str ''parity'')],
        Some [(''name'', Str ''HartreeFock'')],
        Some ([''atom'', ''basis''], Some (Str ''sto3g'')))"
    unfolding sweep_calls by (simp add: comp_def configured_def map_replicate_const)
  ultimately show ?thesis
    using subrountine_frame[where ext = ext and i = i and c = c and d = d
        and backend = backend and algorithm = algorithm and s = s]
    by blast
qed

lemma map_of_dict_set:
  "map_of (dict_set k v kvs) k' = (if k' = k then Some v else map_of kvs k')"
  by (induction kvs) auto

lemma set_dict_set: "set (dict_set k v kvs) \<subseteq> insert (k, v) (set kvs)"
  by (induction kvs) (auto split: if_splits)

lemma contents_ok_iff:
  "(\<exists>x. contents ss es = Inr x) \<longleftrightarrow> (\<forall>(k, a) \<in> set es. a < length ss)"
  by (induction es) (auto split: sum.splits if_splits)

text \<open>
  C2. Called on a dictionary whose references are valid and which has a \<open>PYSCF\<close> entry,
  the unit of work sets the molecule to the template with \<open>d/2\<close> rendered in both places
  (two hydrogen atoms on the z axis at \<open>-d/2\<close> and \<open>d/2\<close>), sets the \<open>algorithm\<close> entry to
  the algorithm it was given, calls the solver once, on the dictionary as it then reads,
  and returns \<open>(i, d, energy, hf_energy)\<close> with the two energies of the solver's result;
  what the solver raises, it raises.
\<close>

theorem C2_unit_of_work:
  assumes "read_dict s c = Inr cfg0"
    and "map_of (dicts s ! c) ''PYSCF'' = Some p"
    and "algorithm < length (subdicts s)"
  shows "\<exists>r s' cfg. subrountine ext i c d backend algorithm s = (r, s') \<and>
     map_of (dicts s' ! c) ''PYSCF'' = Some p \<and>
     map_of (subdicts s' ! p) ''atom'' =
       Some (Str (''H .0 .0 -'' @ float_str ext (d / 2) @ ''; H .0 .0 '' @ float_str ext (d / 2))) \<and>
     map_of (dicts s' ! c) ''algorithm'' = Some algorithm \<and>
     read_dict s' c = Inr cfg \<and>
     solver_calls s' = solver_calls s @ [(cfg, backend)] \<and>
     r = (case solver_run ext cfg backend of
            Inl e \<Rightarrow> Inl e
          | Inr result \<Rightarrow>
              (case map_of result ''energy'' of
                 None \<Rightarrow> Inl (KeyError ''energy'')
               | Some energy \<Rightarrow>
                   (case map_of result ''hf_energy'' of
                      None \<Rightarrow> Inl (KeyError ''hf_energy'')
                    | Some hf_energy \<Rightarrow> Inr (i, d, energy, hf_energy))))"
proof -
  from assms(1) have c: "c < length (dicts s)"
    and ok: "\<exists>x. contents (subdicts s) (dicts s ! c) = Inr x"
    by (auto simp: read_dict_def split: if_splits)
  from ok have valid: "\<forall>(k, a) \<in> set (dicts s ! c). a < length (subdicts s)"
    by (simp only: contents_ok_iff)
  from assms(2) have "(''PYSCF'', p) \<in> set (dicts s ! c)" by (rule map_of_SomeD)
  with valid have p: "p < length (subdicts s)" by auto
  define ss where "ss = (subdicts s)[p := dict_set ''atom''
      (Str (molecule_format (float_str ext (d / 2)))) (subdicts s ! p)]"
  define es where "es = dict_set ''algorithm'' algorithm (dicts s ! c)"
  have "\<forall>(k, a) \<in> set es. a < length ss"
    using valid assms(3) set_dict_set[of "''algorithm''" algorithm "dicts s ! c"]
    by (auto simp: es_def ss_def)
  then obtain cfg where cfg: "contents ss es = Inr cfg"
    using contents_ok_iff[of ss es] by blast
  have sub: "subrountine ext i c d backend algorithm s =
    (case solver_run ext cfg backend of
            Inl e \<Rightarrow> Inl e
          | Inr result \<Rightarrow>
              (case map_of result ''energy'' of
                 None \<Rightarrow> Inl (KeyError ''energy'')
               | Some energy \<Rightarrow>
                   (case map_of result ''hf_energy'' of
                      None \<Rightarrow> Inl (KeyError ''hf_energy'')
                    | Some hf_energy \<Rightarrow> Inr (i, d, energy, hf_energy))),
     s\<lparr>subdicts := ss, dicts := (dicts s)[c := es],
       solver_calls := solver_calls s @ [(cfg, backend)]\<rparr>)"
    using c p assms(2) cfg
    by (simp add: subrountine_def read_dict_def Let_def ss_def[symmetric] es_def[symmetric]
        split: sum.splits option.splits)
  have "map_of ((dicts s)[c := es] ! c) ''PYSCF'' = Some p"
    using c assms(2) by (simp add: es_def map_of_dict_set)
  moreover have "map_of (ss ! p) ''atom'' =
       Some (Str (''H .0 .0 -'' @ float_str ext (d / 2) @ ''; H .0 .0 '' @ float_str ext (d / 2)))"
    using p by (simp add: ss_def map_of_dict_set molecule_format_def)
  moreover have "map_of ((dicts s)[c := es] ! c) ''algorithm'' = Some algorithm"
    using c by (simp add: es_def map_of_dict_set)
  moreover have "read_dict (s\<lparr>subdicts := ss, dicts := (dicts s)[c := es],
       solver_calls := solver_calls s @ [(cfg, backend)]\<rparr>) c = Inr cfg"
    using c cfg by (simp add: read_dict_def)
  ultimately show ?thesis
    unfolding sub by simp
qed

theorem C2_unit_of_work_witness:
  "(\<exists>cfg0. read_dict init qiskit_chemistry_dict = Inr cfg0) \<and>
   map_of (dicts init ! qiskit_chemistry_dict) ''PYSCF'' = Some 1 \<and>
   5 < length (subdicts init) \<and>
   (\<exists>s' cfg. subrountine sample_extern 3 qiskit_chemistry_dict (1 / 2) (Some ''qasm_simulator'') 5 init =
        (Inr (3, 1 / 2, - 1, - 3), s') \<and>
      map_of (subdicts s' ! 1) ''atom'' = Some (Str ''H .0 .0 -0.25; H .0 .0 0.25'') \<and>
      map_of (dicts s' ! qiskit_chemistry_dict) ''algorithm'' = Some 5 \<and>
      solver_calls s' = [(cfg, Some ''qasm_simulator'')])"
proof -
  have a: "read_dict init qiskit_chemistry_dict = Inr
     [ (''driver'', [(''name'', Str ''PYSCF'')]),
       (''PYSCF'', [(''atom'', Str ''''), (''basis'', Str ''sto3g'')]),
       (''operator'', [(''name'', Str ''hamiltonian''), (''transformation'', Str ''full''),
                       (''qubit_mapping'', Str ''parity'')]),
       (''algorithm'', [(''name'', Str '''')]),
       (''initial_state'', [(''name'', Str ''HartreeFock'')]) ]"
    by (simp add: read_dict_def init_def qiskit_chemistry_dict_def)
  have b: "map_of (dicts init ! qiskit_chemistry_dict) ''PYSCF'' = Some 1"
    by (simp add: init_def qiskit_chemistry_dict_def)
  have c: "5 < length (subdicts init)"
    by (simp add: init_def)
  from C2_unit_of_work[OF a b c, where ext = sample_extern and i = 3 and d = "1 / 2"
      and backend = "Some ''qasm_simulator''"]
  obtain r s' cfg where
    r: "subrountine sample_extern 3 qiskit_chemistry_dict (1 / 2) (Some ''qasm_simulator'') 5 init = (r, s')"
      "map_of (subdicts s' ! 1) ''atom'' =
         Some (Str (''H .0 .0 -'' @ float_str sample_extern (1 / 2 / 2) @ ''; H .0 .0 '' @
                    float_str sample_extern (1 / 2 / 2)))"
      "map_of (dicts s' ! qiskit_chemistry_dict) ''algorithm'' = Some 5"
      "solver_calls s' = solver_calls init @ [(cfg, Some ''qasm_simulator'')]"
      "r = (case solver_run sample_extern cfg (Some ''qasm_simulator'') of
            Inl e \<Rightarrow> Inl e
          | Inr result \<Rightarrow>
              (case map_of result ''energy'' of
                 None \<Rightarrow> Inl (KeyError ''energy'')
               | Some energy \<Rightarrow>
                   (case map_of result ''hf_energy'' of
                      None \<Rightarrow> Inl (KeyError ''hf_energy'')
                    | Some hf_energy \<Rightarrow> Inr (3, 1 / 2, energy, hf_energy))))"
    by blast
  have "r = Inr (3, 1 / 2, - 1, - 3)"
    using r(5) by (simp add: sample_extern_def)
  moreover have "map_of (subdicts s' ! 1) ''atom'' = Some (Str ''H .0 .0 -0.25; H .0 .0 0.25'')"
    using r(2) by (simp add: sample_extern_def)
  moreover have "solver_calls s' = [(cfg, Some ''qasm_simulator'')]"
    using r(4) by (simp add: init_def)
  ultimately show ?thesis using a b c r(1,3) by auto
qed

subsection \<open>The difference plot\<close>

lemma difference_plot_shaped:
  assumes "shaped s"
  shows "difference_plot s = Inr
     [ (distances s, map2 minus_entry (hf_energies s) (energies s ! 1), ''Hartree-Fock''),
       (distances s, map2 minus_entry (energies s ! 0) (energies s ! 1), ''IQPE'') ]"
  using assms
  by (simp add: difference_plot_def np_subtract_def pylab_plot_def shaped_def algorithms_def)

lemma difference_plot_mismatch:
  assumes "length (energies s) = 2" "length (hf_energies s) = length (energies s ! 1)"
    and "length (distances s) \<noteq> length (hf_energies s)"
  shows "difference_plot s = Inl (ValueError, [])"
  using assms by (simp add: difference_plot_def np_subtract_def pylab_plot_def)

subsection \<open>A sweep in which a unit raises\<close>

lemma shaped_store_result:
  assumes "shaped s" "store_result j r s = Inr s'"
  shows "shaped s'"
proof -
  obtain i d e h where r: "r = (i, d, e, h)" by (cases r)
  from assms(2) have "s' = s\<lparr>energies := (energies s)[j := (energies s ! j)[i := Some e]],
       hf_energies := (hf_energies s)[i := Some h],
       distances := (distances s)[i := Some d]\<rparr>"
    by (auto simp: store_result_def r Let_def split: if_splits)
  then show ?thesis using shaped_store[OF assms(1)] by simp
qed

lemma shaped_collect:
  assumes "shaped s" "collect j fs s = Inr s'"
  shows "shaped s'"
  using assms
proof (induction fs arbitrary: s)
  case Nil
  then show ?case by simp
next
  case (Cons f fs)
  from Cons.prems(2) obtain r s2 where
    r: "outcome f = Inr r"
    and st: "store_result j r (s\<lparr>taken := taken s @ [(j, fid f)]\<rparr>) = Inr s2"
    and rest: "collect j fs s2 = Inr s'"
    by (auto simp: Let_def split: sum.splits)
  have "shaped (s\<lparr>taken := taken s @ [(j, fid f)]\<rparr>)" using Cons.prems(1) by simp
  from shaped_store_result[OF this st] have "shaped s2" .
  from Cons.IH[OF this rest] show ?case .
qed

lemma collect_raises:
  assumes "f \<in> set fs" "outcome f = Inl e"
  shows "\<exists>x. collect j fs s = Inl x"
  using assms(1)
proof (induction fs arbitrary: s)
  case Nil
  then show ?case by simp
next
  case (Cons g fs)
  show ?case
  proof (cases "outcome g")
    case (Inl x)
    then show ?thesis by (simp add: Let_def)
  next
    case (Inr r)
    with assms(2) have "g \<noteq> f" by auto
    with Cons.prems have "f \<in> set fs" by simp
    from Cons.IH[OF this] Inr show ?thesis
      by (simp add: Let_def split: sum.splits)
  qed
qed

lemma collect_first_failure:
  assumes "j < 2" "shaped s"
    and "\<forall>f \<in> set fs. \<forall>i d e h. outcome f = Inr (i, d, e, h) \<longrightarrow> i \<le> steps"
    and "collect j fs s = Inl (e, s')"
  shows "\<exists>pre g rest s1. fs = pre @ g # rest \<and> outcome g = Inl e \<and>
           (\<forall>f \<in> set pre. succeeded f) \<and> collect j pre s = Inr s1 \<and>
           s' = s1\<lparr>taken := taken s1 @ [(j, fid g)]\<rparr> \<and>
           taken s1 = taken s @ map (\<lambda>f. (j, fid f)) pre"
  using assms(2-4)
proof (induction fs arbitrary: s)
  case Nil
  then show ?case by simp
next
  case (Cons f fs)
  show ?case
  proof (cases "outcome f")
    case (Inl x)
    with Cons.prems(3) have "x = e" "s' = s\<lparr>taken := taken s @ [(j, fid f)]\<rparr>"
      by (simp_all add: Let_def)
    with Inl have "f # fs = [] @ f # fs \<and> outcome f = Inl e \<and>
           (\<forall>f \<in> set []. succeeded f) \<and> collect j [] s = Inr s \<and>
           s' = s\<lparr>taken := taken s @ [(j, fid f)]\<rparr> \<and>
           taken s = taken s @ map (\<lambda>f. (j, fid f)) []"
      by simp
    then show ?thesis by blast
  next
    case (Inr r)
    obtain i d en h where r: "r = (i, d, en, h)" by (cases r)
    with Inr Cons.prems(2) have i: "i \<le> steps" by auto
    with Inr r have sf: "succeeded f" by (auto simp: succeeded_def)
    define s1 where "s1 = s\<lparr>taken := taken s @ [(j, fid f)]\<rparr>"
    define s2 where "s2 = s1\<lparr>energies := (energies s1)[j := (energies s1 ! j)[i := Some en]],
       hf_energies := (hf_energies s1)[i := Some h],
       distances := (distances s1)[i := Some d]\<rparr>"
    have sh1: "shaped s1" using Cons.prems(1) by (simp add: s1_def)
    have st: "store_result j r s1 = Inr s2"
      unfolding s2_def r by (rule store_result_ok[OF sh1 assms(1) i])
    have sh2: "shaped s2" unfolding s2_def by (rule shaped_store[OF sh1])
    have step: "collect j (f # fs) s = collect j fs s2"
      using Inr st by (simp add: s1_def Let_def)
    with Cons.prems(3) have "collect j fs s2 = Inl (e, s')" by simp
    moreover from Cons.prems(2)
    have "\<forall>f \<in> set fs. \<forall>i d e h. outcome f = Inr (i, d, e, h) \<longrightarrow> i \<le> steps" by simp
    ultimately obtain pre g rest s3 where
      IH: "fs = pre @ g # rest" "outcome g = Inl e" "\<forall>f \<in> set pre. succeeded f"
        "collect j pre s2 = Inr s3" "s' = s3\<lparr>taken := taken s3 @ [(j, fid g)]\<rparr>"
        "taken s3 = taken s2 @ map (\<lambda>f. (j, fid f)) pre"
      using Cons.IH[OF sh2] by blast
    have "collect j (f # pre) s = Inr s3"
      using Inr st IH(4) by (simp add: s1_def Let_def)
    moreover have "taken s3 = taken s @ map (\<lambda>f. (j, fid f)) (f # pre)"
      using IH(6) by (simp add: s2_def s1_def)
    moreover have "f # fs = (f # pre) @ g # rest" using IH(1) by simp
    moreover have "\<forall>f' \<in> set (f # pre). succeeded f'" using sf IH(3) by simp
    ultimately show ?thesis using IH(2,5) by blast
  qed
qed

lemma fid_inj:
  assumes "f \<in> set (F0 ext @ F1 ext)" "g \<in> set (F0 ext @ F1 ext)" "fid f = fid g"
  shows "f = g"
  using assms by (auto simp: F0_def F1_def unit_future_def simp del: upt_Suc)

lemma unit_raises:
  assumes "f \<in> set (F0 ext @ F1 ext)"
    and "solver_run ext (configured ext (arg_algorithm f) (arg_d f)) (arg_backend f) = Inl e"
  shows "outcome f = Inl e"
proof -
  from assms(1) obtain n j k where f: "f = unit_future ext n j k"
    by (auto simp: F0_def F1_def simp del: upt_Suc)
  with assms(2) show ?thesis
    by (simp add: unit_future_def unit_outcome_def unit_dict_configured)
qed

lemma sweep_futures_subset:
  "set (futures (result_state (sweep ext init))) \<subseteq> set (F0 ext @ F1 ext)"
  using sweep_final[of ext] by auto

lemma collect_Inr_succeeded:
  assumes "collect j fs s = Inr s'" "f \<in> set fs"
  shows "\<exists>r. outcome f = Inr r"
proof (cases "outcome f")
  case (Inl e)
  from collect_raises[OF assms(2) Inl, of j s] assms(1) show ?thesis by simp
next
  case (Inr r)
  then show ?thesis by blast
qed

lemma sweep_raises:
  assumes ya: "yields_all ext"
    and g: "g \<in> set (futures (result_state (sweep ext init)))" "outcome g = Inl e'"
  shows "\<exists>e s f. sweep ext init = Inl (e, s) \<and> f \<in> set (futures s) \<and> outcome f = Inl e \<and>
           taken s \<noteq> [] \<and> snd (last (taken s)) = fid f \<and>
           fid f \<notin> snd ` set (butlast (taken s))"
proof -
  have set0: "set (as_completed ext (F0 ext)) = set (F0 ext)"
    and set1: "set (as_completed ext (F0 ext @ F1 ext)) = set (F0 ext @ F1 ext)"
    using ya by (simp_all add: yields_all_def)
  have ix0: "\<forall>f \<in> set (as_completed ext (F0 ext)). \<forall>i d e h.
      outcome f = Inr (i, d, e, h) \<longrightarrow> i \<le> steps"
    unfolding set0 using units_indexed[of _ ext] by (metis Un_iff set_append)
  have ix1: "\<forall>f \<in> set (as_completed ext (F0 ext @ F1 ext)). \<forall>i d e h.
      outcome f = Inr (i, d, e, h) \<longrightarrow> i \<le> steps"
    unfolding set1 using units_indexed[of _ ext] by blast
  have j0: "(0::nat) < 2" and j1: "(1::nat) < 2" by simp_all
  from sweep_char[of ext] obtain s1 where
    s1: "store_ok s1" "shaped s1" "futures s1 = F0 ext" "taken s1 = []"
    and alt: "(\<exists>x. collect 0 (as_completed ext (F0 ext)) s1 = Inl x \<and> sweep ext init = Inl x) \<or>
      (\<exists>s2 s3. collect 0 (as_completed ext (F0 ext)) s1 = Inr s2 \<and>
         futures s3 = F0 ext @ F1 ext \<and>
         energies s3 = energies s2 \<and> hf_energies s3 = hf_energies s2 \<and>
         distances s3 = distances s2 \<and> taken s3 = taken s2 \<and>
         sweep ext init = collect 1 (as_completed ext (F0 ext @ F1 ext)) s3)"
    by blast
  from alt show ?thesis
  proof
    assume "\<exists>x. collect 0 (as_completed ext (F0 ext)) s1 = Inl x \<and> sweep ext init = Inl x"
    then obtain e s where c: "collect 0 (as_completed ext (F0 ext)) s1 = Inl (e, s)"
      and sw: "sweep ext init = Inl (e, s)" by auto
    from collect_first_failure[OF j0 s1(2) ix0 c] obtain pre f rest sp where
      p: "as_completed ext (F0 ext) = pre @ f # rest" "outcome f = Inl e"
        "\<forall>f \<in> set pre. succeeded f" "s = sp\<lparr>taken := taken sp @ [(0, fid f)]\<rparr>"
        "taken sp = taken s1 @ map (\<lambda>f. (0, fid f)) pre"
      by blast
    have fs: "futures s = F0 ext"
      using collect_result_state(3)[of 0 "as_completed ext (F0 ext)" s1] c s1(3) by simp
    have mem: "set pre \<subseteq> set (F0 ext)" "f \<in> set (F0 ext)"
      using p(1) set0 by auto
    have tk: "taken s = map (\<lambda>f. (0, fid f)) pre @ [(0, fid f)]"
      using p(4,5) s1(4) by simp
    have "fid f \<notin> fid ` set pre"
    proof
      assume "fid f \<in> fid ` set pre"
      then obtain f' where f': "f' \<in> set pre" "fid f = fid f'" by auto
      with fid_inj[of f ext f'] mem have "f = f'" by auto
      with f'(1) p(3) p(2) show False by (auto simp: succeeded_def)
    qed
    then have "fid f \<notin> snd ` set (butlast (taken s))"
      unfolding tk by (auto simp: image_iff)
    with sw p(2) mem(2) fs tk show ?thesis by auto
  next
    assume "\<exists>s2 s3. collect 0 (as_completed ext (F0 ext)) s1 = Inr s2 \<and>
         futures s3 = F0 ext @ F1 ext \<and>
         energies s3 = energies s2 \<and> hf_energies s3 = hf_energies s2 \<and>
         distances s3 = distances s2 \<and> taken s3 = taken s2 \<and>
         sweep ext init = collect 1 (as_completed ext (F0 ext @ F1 ext)) s3"
    then obtain s2 s3 where
      c0: "collect 0 (as_completed ext (F0 ext)) s1 = Inr s2"
      and s3: "futures s3 = F0 ext @ F1 ext"
        "energies s3 = energies s2" "hf_energies s3 = hf_energies s2"
        "distances s3 = distances s2" "taken s3 = taken s2"
      and sw: "sweep ext init = collect 1 (as_completed ext (F0 ext @ F1 ext)) s3"
      by blast
    have ok0: "\<forall>f \<in> set (as_completed ext (F0 ext)). succeeded f"
    proof
      fix f assume f: "f \<in> set (as_completed ext (F0 ext))"
      from collect_Inr_succeeded[OF c0 f] obtain r where r: "outcome f = Inr r" by blast
      obtain i d e h where "r = (i, d, e, h)" by (cases r)
      with r ix0 f show "succeeded f" by (auto simp: succeeded_def)
    qed
    from collect_ok[OF j0 s1(2) ok0] c0 have
      t2: "taken s2 = taken s1 @ map (\<lambda>f. (0, fid f)) (as_completed ext (F0 ext))"
      by auto
    have sh3: "shaped s3"
      using shaped_collect[OF s1(2) c0] s3(2-4) by (simp add: shaped_def)
    have gin: "g \<in> set (as_completed ext (F0 ext @ F1 ext))"
      using g(1) sweep_futures_subset[of ext] set1 by auto
    from collect_raises[OF gin g(2), of 1 s3] obtain x where
      "collect 1 (as_completed ext (F0 ext @ F1 ext)) s3 = Inl x" by blast
    then obtain e s where c: "collect 1 (as_completed ext (F0 ext @ F1 ext)) s3 = Inl (e, s)"
      by (cases x) auto
    from collect_first_failure[OF j1 sh3 ix1 c] obtain pre f rest sp where
      p: "as_completed ext (F0 ext @ F1 ext) = pre @ f # rest" "outcome f = Inl e"
        "\<forall>f \<in> set pre. succeeded f" "s = sp\<lparr>taken := taken sp @ [(1, fid f)]\<rparr>"
        "taken sp = taken s3 @ map (\<lambda>f. (1, fid f)) pre"
      by blast
    have fs: "futures s = F0 ext @ F1 ext"
      using collect_result_state(3)[of 1 "as_completed ext (F0 ext @ F1 ext)" s3] c s3(1)
      by simp
    have mem: "set pre \<subseteq> set (F0 ext @ F1 ext)" "f \<in> set (F0 ext @ F1 ext)"
      using p(1) set1 by auto
    have tk: "taken s = (map (\<lambda>f. (0, fid f)) (as_completed ext (F0 ext)) @
                map (\<lambda>f. (1, fid f)) pre) @ [(1, fid f)]"
      using p(4,5) s3(5) t2 s1(4) by simp
    have "fid f \<notin> fid ` (set (as_completed ext (F0 ext)) \<union> set pre)"
    proof
      assume "fid f \<in> fid ` (set (as_completed ext (F0 ext)) \<union> set pre)"
      then obtain f' where f': "f' \<in> set (as_completed ext (F0 ext)) \<union> set pre"
        "fid f = fid f'" by auto
      from f'(1) set0 mem(1) have "f' \<in> set (F0 ext @ F1 ext)" by auto
      with fid_inj[of f ext f'] mem(2) f'(2) have "f = f'" by auto
      with f'(1) p(3) ok0 p(2) show False by (auto simp: succeeded_def)
    qed
    moreover have bl: "butlast (taken s) = map (\<lambda>f. (0, fid f)) (as_completed ext (F0 ext)) @
                map (\<lambda>f. (1, fid f)) pre"
      unfolding tk by (rule butlast_snoc)
    ultimately have "fid f \<notin> snd ` set (butlast (taken s))"
      unfolding bl by (auto simp: image_iff)
    moreover have "sweep ext init = Inl (e, s)" using sw c by simp
    ultimately show ?thesis using p(2) mem(2) fs tk by auto
  qed
qed

lemma round_raises:
  assumes "j < length algorithms" and "j < length backends"
    and "submit_loop ext (algorithms ! j) (backends ! j) [0..<steps + 1] s0 = Inr s"
    and "as_completed ext (futures s) = pre @ f # rest"
    and "collect j pre s = Inr s1"
    and "outcome f = Inl e"
  shows "sweep_loop ext (j # js) s0 = Inl (e, s1\<lparr>taken := taken s1 @ [(j, fid f)]\<rparr>)"
proof -
  have "collect j (pre @ f # rest) s = Inl (e, s1\<lparr>taken := taken s1 @ [(j, fid f)]\<rparr>)"
    unfolding collect_append assms(5) using assms(6) by (simp add: Let_def)
  moreover have "\<not> (length algorithms \<le> j \<or> length backends \<le> j)"
    using assms(1,2) by simp
  ultimately show ?thesis
    unfolding sweep_loop.simps assms(3) sum.case assms(4) by simp
qed

text \<open>
  C6. (a) A submitted unit whose solver call raises holds that exception as its outcome.
  (b) In any pass \<open>j\<close> of the outer loop: when the futures yielded before \<open>g\<close> were collected
  without an exception and \<open>g\<close> holds the exception \<open>e\<close>, the loop nest ends with \<open>e\<close>, in
  the state reached before \<^verbatim>\<open>g.result()\<close> was called (only the call is logged): nothing is
  written for \<open>g\<close>, nothing after it is collected, no later algorithm is submitted.
  (c) When \<^verbatim>\<open>as_completed\<close> yields every future and some submitted unit raised, the sweep
  ends with the exception of a unit, raised by the last and only call of that future's
  \<^verbatim>\<open>result()\<close>.
\<close>

theorem C6_exception_propagates:
  "(f \<in> set (futures (result_state (sweep ext init))) \<longrightarrow>
      solver_run ext (configured ext (arg_algorithm f) (arg_d f)) (arg_backend f) = Inl e \<longrightarrow>
      outcome f = Inl e) \<and>
   (j < length algorithms \<longrightarrow> j < length backends \<longrightarrow>
      submit_loop ext (algorithms ! j) (backends ! j) [0..<steps + 1] s0 = Inr s \<longrightarrow>
      as_completed ext (futures s) = pre @ g # rest \<longrightarrow>
      collect j pre s = Inr s1 \<longrightarrow>
      outcome g = Inl e1 \<longrightarrow>
      sweep_loop ext (j # js) s0 = Inl (e1, s1\<lparr>taken := taken s1 @ [(j, fid g)]\<rparr>)) \<and>
   (yields_all ext \<longrightarrow>
      f \<in> set (futures (result_state (sweep ext init))) \<longrightarrow>
      outcome f = Inl e \<longrightarrow>
      (\<exists>e2 s2 f2. sweep ext init = Inl (e2, s2) \<and> f2 \<in> set (futures s2) \<and>
         outcome f2 = Inl e2 \<and> taken s2 \<noteq> [] \<and> snd (last (taken s2)) = fid f2 \<and>
         fid f2 \<notin> snd ` set (butlast (taken s2))))"
proof (intro conjI impI)
  assume "f \<in> set (futures (result_state (sweep ext init)))"
    and "solver_run ext (configured ext (arg_algorithm f) (arg_d f)) (arg_backend f) = Inl e"
  with sweep_futures_subset[of ext] unit_raises[of f ext e]
  show "outcome f = Inl e" by blast
next
  assume "j < length algorithms" and "j < length backends"
    and "submit_loop ext (algorithms ! j) (backends ! j) [0..<steps + 1] s0 = Inr s"
    and "as_completed ext (futures s) = pre @ g # rest"
    and "collect j pre s = Inr s1"
    and "outcome g = Inl e1"
  then show "sweep_loop ext (j # js) s0 = Inl (e1, s1\<lparr>taken := taken s1 @ [(j, fid g)]\<rparr>)"
    by (rule round_raises)
next
  assume "yields_all ext"
    and "f \<in> set (futures (result_state (sweep ext init)))"
    and "outcome f = Inl e"
  then show "\<exists>e2 s2 f2. sweep ext init = Inl (e2, s2) \<and> f2 \<in> set (futures s2) \<and>
         outcome f2 = Inl e2 \<and> taken s2 \<noteq> [] \<and> snd (last (taken s2)) = fid f2 \<and>
         fid f2 \<notin> snd ` set (butlast (taken s2))"
    by (rule sweep_raises)
qed

theorem C6_exception_propagates_witness:
  "yields_all failing_extern \<and>
   (\<exists>s. sweep failing_extern init = Inl (SolverError ''no convergence'', s) \<and>
        taken s = [(0, 0)] \<and> energies s = energies init \<and>
        hf_energies s = hf_energies init \<and> distances s = distances init \<and>
        length (futures s) = 21 \<and>
        outcome (hd (futures s)) = Inl (SolverError ''no convergence''))"
proof -
  let ?x = failing_extern
  let ?g = "unit_future ?x 0 0 0"
  let ?rest = "map (\<lambda>i. unit_future ?x i 0 i) [1..<steps + 1]"
  let ?e = "SolverError ''no convergence''"
  have ya: "yields_all ?x"
    by (simp add: yields_all_def failing_extern_def)
  from round0[of ?x] obtain s1 where
    s1: "submit_loop ?x (algorithms ! 0) (backends ! 0) [0..<steps + 1] (init\<lparr>futures := []\<rparr>) = Inr s1"
      "futures s1 = F0 ?x" "energies s1 = energies init" "hf_energies s1 = hf_energies init"
      "distances s1 = distances init" "taken s1 = []"
    by blast
  have F0: "F0 ?x = ?g # ?rest"
    using upt_conv_Cons[of 0 "steps + 1"] by (simp add: F0_def del: upt_Suc)
  have ac: "as_completed ?x (futures s1) = [] @ ?g # ?rest"
    using s1(2) F0 by (simp add: failing_extern_def)
  have c: "collect 0 [] s1 = Inr s1" by simp
  have sr: "solver_run ?x (configured ?x (arg_algorithm ?g) (arg_d ?g)) (arg_backend ?g) = Inl ?e"
    by (simp add: failing_extern_def)
  have two: "[0..<length algorithms] = [0, 1]"
    by (simp add: algorithms_def upt_conv_Cons)
  have mem0: "?g \<in> set (F0 ?x @ F1 ?x)" using F0 by simp
  have o: "outcome ?g = Inl ?e"
    by (rule unit_raises[OF mem0 sr])
  note inst = C6_exception_propagates[where ext = ?x and f = ?g and e = ?e and j = 0
      and ?s0.0 = "init\<lparr>futures := []\<rparr>" and s = s1 and pre = "[]" and g = ?g
      and rest = ?rest and ?s1.0 = s1 and ?e1.0 = ?e and js = "[1]"]
  have jj: "0 < length algorithms" "0 < length backends"
    by (simp_all add: algorithms_def backends_def)
  from inst jj s1(1) ac c o
  have sl: "sweep_loop ?x [0, 1] (init\<lparr>futures := []\<rparr>) =
      Inl (?e, s1\<lparr>taken := taken s1 @ [(0, fid ?g)]\<rparr>)"
    by blast
  then have sw: "sweep ?x init = Inl (?e, s1\<lparr>taken := taken s1 @ [(0, fid ?g)]\<rparr>)"
    by (simp add: sweep_def two)
  have mem: "?g \<in> set (futures (result_state (sweep ?x init)))"
    unfolding sw using s1(2) F0 by simp
  from inst mem sr have "outcome ?g = Inl ?e" by blast
  moreover from inst ya mem o
  have "\<exists>e2 s2 f2. sweep ?x init = Inl (e2, s2) \<and> f2 \<in> set (futures s2) \<and>
         outcome f2 = Inl e2 \<and> taken s2 \<noteq> [] \<and> snd (last (taken s2)) = fid f2 \<and>
         fid f2 \<notin> snd ` set (butlast (taken s2))"
    by blast
  moreover have "length (futures (s1\<lparr>taken := taken s1 @ [(0, fid ?g)]\<rparr>)) = 21"
    using s1(2) by (simp add: F0_def steps_def)
  moreover have "hd (futures (s1\<lparr>taken := taken s1 @ [(0, fid ?g)]\<rparr>)) = ?g"
    using s1(2) F0 by simp
  moreover have "taken (s1\<lparr>taken := taken s1 @ [(0, fid ?g)]\<rparr>) = [(0, 0)]"
    using s1(6) by (simp add: unit_future_def)
  ultimately show ?thesis
    using ya sw s1(3-5) by auto
qed

subsection \<open>The futures of the first pass in the second pass\<close>

lemma set_move_front:
  assumes "k < length fs"
  shows "set (fs ! k # take k fs @ drop (Suc k) fs) = set fs"
proof -
  have "set fs = set (take k fs @ fs ! k # drop (Suc k) fs)"
    using id_take_nth_drop[OF assms] by simp
  then show ?thesis by auto
qed

lemma racing_extern_ok: "yields_all racing_extern" "solver_returns racing_extern"
proof -
  show "yields_all racing_extern"
    unfolding yields_all_def
  proof
    fix fs :: "future list"
    show "set (as_completed racing_extern fs) = set fs"
    proof (cases "steps + 1 < length fs")
      case True
      then show ?thesis
        using set_move_front[of "steps + 1" fs] by (simp add: racing_extern_def)
    next
      case False
      then show ?thesis by (simp add: racing_extern_def)
    qed
  qed
  show "solver_returns racing_extern"
    by (simp add: solver_returns_def racing_extern_def)
qed

lemma sweep_second_round:
  assumes "yields_all ext" "solver_returns ext"
  shows "\<exists>s3. shaped s3 \<and> taken s3 = map (\<lambda>f. (0, fid f)) (as_completed ext (F0 ext)) \<and>
           sweep ext init = collect 1 (as_completed ext (F0 ext @ F1 ext)) s3"
proof -
  have set0: "set (as_completed ext (F0 ext)) = set (F0 ext)"
    using assms(1) by (simp add: yields_all_def)
  have ok0: "\<forall>f \<in> set (as_completed ext (F0 ext)). succeeded f"
    unfolding set0 using succeeded_F0[OF assms(2)] by blast
  from sweep_char[of ext] obtain s1 where
    s1: "shaped s1" "taken s1 = []"
    and alt: "(\<exists>x. collect 0 (as_completed ext (F0 ext)) s1 = Inl x \<and> sweep ext init = Inl x) \<or>
      (\<exists>s2 s3. collect 0 (as_completed ext (F0 ext)) s1 = Inr s2 \<and>
         energies s3 = energies s2 \<and> hf_energies s3 = hf_energies s2 \<and>
         distances s3 = distances s2 \<and> taken s3 = taken s2 \<and>
         sweep ext init = collect 1 (as_completed ext (F0 ext @ F1 ext)) s3)"
    by blast
  have j0: "(0::nat) < 2" by simp
  from collect_ok[OF j0 s1(1) ok0] obtain s2 where
    s2: "collect 0 (as_completed ext (F0 ext)) s1 = Inr s2" "shaped s2"
      "taken s2 = taken s1 @ map (\<lambda>f. (0, fid f)) (as_completed ext (F0 ext))"
    by blast
  from alt s2(1) obtain s3 where
    s3: "energies s3 = energies s2" "hf_energies s3 = hf_energies s2"
      "distances s3 = distances s2" "taken s3 = taken s2"
      "sweep ext init = collect 1 (as_completed ext (F0 ext @ F1 ext)) s3"
    by auto
  have "shaped s3" using s2(2) s3(1-3) by (simp add: shaped_def)
  moreover have "taken s3 = map (\<lambda>f. (0, fid f)) (as_completed ext (F0 ext))"
    using s3(4) s2(3) s1(2) by simp
  ultimately show ?thesis using s3(5) by blast
qed

lemma racing_order:
  "as_completed racing_extern (F0 racing_extern) = F0 racing_extern"
  "as_completed racing_extern (F0 racing_extern @ F1 racing_extern) =
     [unit_future racing_extern (steps + 1) 1 0, unit_future racing_extern 0 0 0] @
     (map (\<lambda>i. unit_future racing_extern i 0 i) [1..<steps + 1] @
      map (\<lambda>i. unit_future racing_extern (steps + 1 + i) 1 i) [1..<steps + 1])"
proof -
  let ?x = racing_extern
  show "as_completed ?x (F0 ?x) = F0 ?x"
    by (simp add: racing_extern_def F0_def)
  have l0: "length (F0 ?x) = steps + 1" and l1: "length (F1 ?x) = steps + 1"
    by (simp_all add: F0_def F1_def)
  have F0: "F0 ?x = unit_future ?x 0 0 0 # map (\<lambda>i. unit_future ?x i 0 i) [1..<steps + 1]"
    using upt_conv_Cons[of 0 "steps + 1"] by (simp add: F0_def del: upt_Suc)
  have F1: "F1 ?x = unit_future ?x (steps + 1) 1 0 #
      map (\<lambda>i. unit_future ?x (steps + 1 + i) 1 i) [1..<steps + 1]"
    using upt_conv_Cons[of 0 "steps + 1"] by (simp add: F1_def del: upt_Suc)
  have a: "(F0 ?x @ F1 ?x) ! (steps + 1) = unit_future ?x (steps + 1) 1 0"
    using nth_append_length[of "F0 ?x" "unit_future ?x (steps + 1) 1 0"
        "map (\<lambda>i. unit_future ?x (steps + 1 + i) 1 i) [1..<steps + 1]"]
    unfolding l0 F1[symmetric] .
  have b: "take (steps + 1) (F0 ?x @ F1 ?x) = F0 ?x"
    using l0 by simp
  have c: "drop (steps + 2) (F0 ?x @ F1 ?x) =
      map (\<lambda>i. unit_future ?x (steps + 1 + i) 1 i) [1..<steps + 1]"
  proof -
    have "drop (steps + 2) (F0 ?x @ F1 ?x) = drop 1 (F1 ?x)"
      using l0 by simp
    also have "\<dots> = map (\<lambda>i. unit_future ?x (steps + 1 + i) 1 i) [1..<steps + 1]"
      unfolding F1 by simp
    finally show ?thesis .
  qed
  have "steps + 1 < length (F0 ?x @ F1 ?x)"
    using l0 l1 by simp
  then have "as_completed ?x (F0 ?x @ F1 ?x) =
     (F0 ?x @ F1 ?x) ! (steps + 1) # take (steps + 1) (F0 ?x @ F1 ?x) @
     drop (steps + 2) (F0 ?x @ F1 ?x)"
    by (simp add: racing_extern_def)
  also have "\<dots> = unit_future ?x (steps + 1) 1 0 # F0 ?x @
      map (\<lambda>i. unit_future ?x (steps + 1 + i) 1 i) [1..<steps + 1]"
    unfolding a b c ..
  finally show "as_completed ?x (F0 ?x @ F1 ?x) =
     [unit_future ?x (steps + 1) 1 0, unit_future ?x 0 0 0] @
     (map (\<lambda>i. unit_future ?x i 0 i) [1..<steps + 1] @
      map (\<lambda>i. unit_future ?x (steps + 1 + i) 1 i) [1..<steps + 1])"
    using F0 by simp
qed

lemma racing_outcomes:
  "outcome (unit_future racing_extern n 0 0) = Inr (0, 1 / 2, - 1, - 3)"
  "outcome (unit_future racing_extern n 1 0) = Inr (0, 1 / 2, - 2, - 3)"
  by (simp_all add: unit_future_def unit_outcome_def racing_extern_def backends_def
      distance_at_def start_def)

lemma collect_two:
  assumes "shaped s" "j < 2" "i \<le> steps"
    and "outcome f = Inr (i, d, e, h)" "outcome g = Inr (i, d', e', h')"
  shows "\<exists>s'. collect j [f, g] s = Inr s' \<and> shaped s' \<and> energies s' ! j ! i = Some e'"
proof -
  define s1 where "s1 = s\<lparr>taken := taken s @ [(j, fid f)]\<rparr>"
  define s2 where "s2 = s1\<lparr>energies := (energies s1)[j := (energies s1 ! j)[i := Some e]],
       hf_energies := (hf_energies s1)[i := Some h],
       distances := (distances s1)[i := Some d]\<rparr>"
  define s3 where "s3 = s2\<lparr>taken := taken s2 @ [(j, fid g)]\<rparr>"
  define s4 where "s4 = s3\<lparr>energies := (energies s3)[j := (energies s3 ! j)[i := Some e']],
       hf_energies := (hf_energies s3)[i := Some h'],
       distances := (distances s3)[i := Some d']\<rparr>"
  have sh1: "shaped s1" using assms(1) by (simp add: s1_def)
  have st1: "store_result j (i, d, e, h) s1 = Inr s2"
    unfolding s2_def by (rule store_result_ok[OF sh1 assms(2,3)])
  have sh2: "shaped s2" unfolding s2_def by (rule shaped_store[OF sh1])
  have sh3: "shaped s3" using sh2 by (simp add: s3_def)
  have st2: "store_result j (i, d', e', h') s3 = Inr s4"
    unfolding s4_def by (rule store_result_ok[OF sh3 assms(2,3)])
  have sh4: "shaped s4" unfolding s4_def by (rule shaped_store[OF sh3])
  have len: "j < length (energies s3)" "i < length (energies s3 ! j)"
    using sh3 assms(2,3) by (simp_all add: shaped_def algorithms_def)
  have "energies s4 ! j ! i = Some e'"
    using len by (simp add: s4_def)
  moreover have "collect j [f, g] s = Inr s4"
    using assms(4,5) st1 st2 by (simp add: Let_def s1_def[symmetric] s3_def[symmetric])
  ultimately show ?thesis using sh4 by blast
qed

lemma racing_sweep:
  "\<exists>s. sweep racing_extern init = Inr s \<and>
     arg_algorithm (futures s ! 0) = algorithms ! 0 \<and>
     outcome (futures s ! 0) = Inr (0, 1 / 2, - 1, - 3) \<and>
     arg_algorithm (futures s ! 21) = algorithms ! 1 \<and>
     outcome (futures s ! 21) = Inr (0, 1 / 2, - 2, - 3) \<and>
     taken s = map (\<lambda>n. (0, n)) [0..<21] @ [(1, 21), (1, 0)] @
               map (\<lambda>n. (1, n)) [1..<21] @ map (\<lambda>n. (1, n)) [22..<42] \<and>
     energies s ! 1 ! 0 = Some (- 1)"
proof -
  let ?ext = racing_extern
  let ?exact = "unit_future ?ext (steps + 1) 1 0"
  let ?iqpe = "unit_future ?ext 0 0 0"
  let ?rest = "map (\<lambda>i. unit_future ?ext i 0 i) [1..<steps + 1] @
      map (\<lambda>i. unit_future ?ext (steps + 1 + i) 1 i) [1..<steps + 1]"
  note ok = racing_extern_ok
  have j1: "(1::nat) < 2" by simp
  from sweep_second_round[OF ok] obtain s3 where
    s3: "shaped s3" "sweep ?ext init = collect 1 (as_completed ?ext (F0 ?ext @ F1 ?ext)) s3"
    by blast
  have sw: "sweep ?ext init =
      (case collect 1 [?exact, ?iqpe] s3 of Inl x \<Rightarrow> Inl x | Inr s4 \<Rightarrow> collect 1 ?rest s4)"
    unfolding s3(2) racing_order(2) collect_append ..
  from collect_two[OF s3(1) j1 _ racing_outcomes(2) racing_outcomes(1), of "steps + 1" 0]
  obtain s4 where
    s4: "collect 1 [?exact, ?iqpe] s3 = Inr s4" "shaped s4" "energies s4 ! 1 ! 0 = Some (- 1)"
    by auto
  have "set ?rest \<subseteq> set (as_completed ?ext (F0 ?ext @ F1 ?ext))"
    unfolding racing_order(2) by auto
  also have "\<dots> = set (F0 ?ext @ F1 ?ext)"
    using ok(1) by (simp add: yields_all_def)
  finally have "\<forall>f \<in> set ?rest. succeeded f"
    using succeeded_F0[OF ok(2)] succeeded_F1[OF ok(2)] by auto
  from collect_ok[OF j1 s4(2) this] obtain s where
    s: "collect 1 ?rest s4 = Inr s"
      "\<forall>i. i \<notin> indices ?rest \<longrightarrow> energies s ! 1 ! i = energies s4 ! 1 ! i"
    by blast
  have "indices ?rest = {1..<steps + 1}"
    unfolding indices_append
      indices_units[OF ok(2), of "\<lambda>i. i" 0 1 "steps + 1"]
      indices_units[OF ok(2), of "\<lambda>i. steps + 1 + i" 1 1 "steps + 1"]
    by (rule Un_absorb)
  then have "0 \<notin> indices ?rest" by simp
  with s(2) s4(3) have val: "energies s ! 1 ! 0 = Some (- 1)" by simp
  have res: "sweep ?ext init = Inr s"
    unfolding sw s4(1) using s(1) by simp
  from sweep_succeeds[OF ok] res have
    fs: "futures s = F0 ?ext @ F1 ?ext"
    and tk: "taken s = map (\<lambda>f. (0, fid f)) (as_completed ?ext (F0 ?ext)) @
                     map (\<lambda>f. (1, fid f)) (as_completed ?ext (F0 ?ext @ F1 ?ext))"
    by auto
  have l0: "length (F0 ?ext) = 21" by (simp add: F0_def steps_def)
  have f0: "futures s ! 0 = ?iqpe"
    unfolding fs using upt_conv_Cons[of 0 "steps + 1"] by (simp add: F0_def del: upt_Suc)
  have "(F0 ?ext @ F1 ?ext) ! 21 = F1 ?ext ! 0"
    using l0 by (simp add: nth_append)
  then have f21: "futures s ! 21 = ?exact"
    unfolding fs using upt_conv_Cons[of 0 "steps + 1"] by (simp add: F1_def del: upt_Suc)
  have st: "steps + 1 = 21" by (simp add: steps_def)
  have "taken s = map (\<lambda>n. (0, n)) [0..<21] @ [(1, 21), (1, 0)] @
               map (\<lambda>n. (1, n)) [1..<21] @ map (\<lambda>i. (1, 21 + i)) [1..<21]"
    unfolding tk racing_order
    by (simp add: F0_def unit_future_def comp_def steps_def del: upt_Suc)
  also have "map (\<lambda>i. (1::nat, 21 + i)) [1..<21] = map (\<lambda>n. (1, n)) [22..<42]"
    using upt_shift[of "\<lambda>n. (1::nat, n)" 21 21] upt_conv_Cons[of 0 21]
      upt_conv_Cons[of 21 42] map_Suc_upt[of 0 20]
    by (simp add: comp_def del: upt_Suc)
  finally have tk': "taken s = map (\<lambda>n. (0, n)) [0..<21] @ [(1, 21), (1, 0)] @
               map (\<lambda>n. (1, n)) [1..<21] @ map (\<lambda>n. (1, n)) [22..<42]" .
  have "arg_algorithm (futures s ! 0) = algorithms ! 0"
    "arg_algorithm (futures s ! 21) = algorithms ! 1"
    unfolding f0 f21 by (simp_all add: unit_future_def)
  moreover have "outcome (futures s ! 0) = Inr (0, 1 / 2, - 1, - 3)"
    "outcome (futures s ! 21) = Inr (0, 1 / 2, - 2, - 3)"
    unfolding f0 f21 by (rule racing_outcomes)+
  ultimately show ?thesis using res tk' val by blast
qed

text \<open>
  C1. The results are not consumed once each, and not always stored under the algorithm
  that produced them. The list \<^verbatim>\<open>futures\<close> is created once, before the outer loop, and
  the aggregation loop of the second pass runs over all of it with \<open>j = 1\<close>: every IQPE
  future is consumed a second time and its energy is written into \<^verbatim>\<open>energies[1]\<close>. Here
  the solver returns energy \<open>-1\<close> on the qasm_simulator backend and \<open>-2\<close> without a
  backend, and in the second pass \<^verbatim>\<open>as_completed\<close> yields the first ExactEigensolver
  future before the IQPE futures: the sweep ends with the IQPE energy in
  \<^verbatim>\<open>energies[1][0]\<close>, and the log of \<^verbatim>\<open>result()\<close> calls holds the IQPE future of step 0
  under both values of \<open>j\<close>.
\<close>

theorem C1_iqpe_results_consumed_twice:
  "\<exists>s. sweep racing_extern init = Inr s \<and>
     arg_algorithm (futures s ! 0) = algorithms ! 0 \<and>
     outcome (futures s ! 0) = Inr (0, 1 / 2, - 1, - 3) \<and>
     arg_algorithm (futures s ! 21) = algorithms ! 1 \<and>
     outcome (futures s ! 21) = Inr (0, 1 / 2, - 2, - 3) \<and>
     taken s = map (\<lambda>n. (0, n)) [0..<21] @ [(1, 21), (1, 0)] @
               map (\<lambda>n. (1, n)) [1..<21] @ map (\<lambda>n. (1, n)) [22..<42] \<and>
     energies s ! 1 ! 0 = Some (- 1)"
  by (rule racing_sweep)

subsection \<open>Every entry is assigned\<close>

lemma sweep_Inl_unit:
  assumes ya: "yields_all ext" and sw: "sweep ext init = Inl (e, s)"
  shows "\<exists>f \<in> set (futures s). outcome f = Inl e"
proof -
  have set0: "set (as_completed ext (F0 ext)) = set (F0 ext)"
    and set1: "set (as_completed ext (F0 ext @ F1 ext)) = set (F0 ext @ F1 ext)"
    using ya by (simp_all add: yields_all_def)
  have ix0: "\<forall>f \<in> set (as_completed ext (F0 ext)). \<forall>i d e h.
      outcome f = Inr (i, d, e, h) \<longrightarrow> i \<le> steps"
    unfolding set0 using units_indexed[of _ ext] by (metis Un_iff set_append)
  have ix1: "\<forall>f \<in> set (as_completed ext (F0 ext @ F1 ext)). \<forall>i d e h.
      outcome f = Inr (i, d, e, h) \<longrightarrow> i \<le> steps"
    unfolding set1 using units_indexed[of _ ext] by blast
  have j0: "(0::nat) < 2" and j1: "(1::nat) < 2" by simp_all
  from sweep_char[of ext] obtain s1 where
    s1: "shaped s1" "futures s1 = F0 ext"
    and alt: "(\<exists>x. collect 0 (as_completed ext (F0 ext)) s1 = Inl x \<and> sweep ext init = Inl x) \<or>
      (\<exists>s2 s3. collect 0 (as_completed ext (F0 ext)) s1 = Inr s2 \<and>
         futures s3 = F0 ext @ F1 ext \<and>
         energies s3 = energies s2 \<and> hf_energies s3 = hf_energies s2 \<and>
         distances s3 = distances s2 \<and>
         sweep ext init = collect 1 (as_completed ext (F0 ext @ F1 ext)) s3)"
    by blast
  from alt show ?thesis
  proof
    assume "\<exists>x. collect 0 (as_completed ext (F0 ext)) s1 = Inl x \<and> sweep ext init = Inl x"
    with sw have c: "collect 0 (as_completed ext (F0 ext)) s1 = Inl (e, s)" by auto
    from collect_first_failure[OF j0 s1(1) ix0 c] obtain pre f rest where
      p: "as_completed ext (F0 ext) = pre @ f # rest" "outcome f = Inl e"
      by blast
    have "futures s = F0 ext"
      using collect_result_state(3)[of 0 "as_completed ext (F0 ext)" s1] c s1(2) by simp
    moreover have "f \<in> set (F0 ext)" using p(1) set0 by auto
    ultimately show ?thesis using p(2) by auto
  next
    assume "\<exists>s2 s3. collect 0 (as_completed ext (F0 ext)) s1 = Inr s2 \<and>
         futures s3 = F0 ext @ F1 ext \<and>
         energies s3 = energies s2 \<and> hf_energies s3 = hf_energies s2 \<and>
         distances s3 = distances s2 \<and>
         sweep ext init = collect 1 (as_completed ext (F0 ext @ F1 ext)) s3"
    then obtain s2 s3 where
      c0: "collect 0 (as_completed ext (F0 ext)) s1 = Inr s2"
      and s3: "futures s3 = F0 ext @ F1 ext"
        "energies s3 = energies s2" "hf_energies s3 = hf_energies s2"
        "distances s3 = distances s2"
      and sw1: "sweep ext init = collect 1 (as_completed ext (F0 ext @ F1 ext)) s3"
      by blast
    have sh3: "shaped s3"
      using shaped_collect[OF s1(1) c0] s3(2-4) by (simp add: shaped_def)
    from sw sw1 have c: "collect 1 (as_completed ext (F0 ext @ F1 ext)) s3 = Inl (e, s)"
      by simp
    from collect_first_failure[OF j1 sh3 ix1 c] obtain pre f rest where
      p: "as_completed ext (F0 ext @ F1 ext) = pre @ f # rest" "outcome f = Inl e"
      by blast
    have "futures s = F0 ext @ F1 ext"
      using collect_result_state(3)[of 1 "as_completed ext (F0 ext @ F1 ext)" s3] c s3(1)
      by simp
    moreover have "f \<in> set (F0 ext @ F1 ext)" using p(1) set1 by auto
    ultimately show ?thesis using p(2) by auto
  qed
qed

text \<open>
  C9. When \<^verbatim>\<open>as_completed\<close> yields every future it is given and no submitted unit of work
  raised, the sweep runs to completion and every entry of \<^verbatim>\<open>distances\<close>, of
  \<^verbatim>\<open>hf_energies\<close> and of both rows of \<^verbatim>\<open>energies\<close> has been assigned: no value left by
  \<^verbatim>\<open>np.empty\<close> remains.
\<close>

theorem C9_all_entries_assigned:
  assumes "yields_all ext"
    and "\<forall>f \<in> set (futures (result_state (sweep ext init))). \<exists>r. outcome f = Inr r"
  shows "\<exists>s. sweep ext init = Inr s \<and>
           length (distances s) = steps + 1 \<and> None \<notin> set (distances s) \<and>
           length (hf_energies s) = steps + 1 \<and> None \<notin> set (hf_energies s) \<and>
           length (energies s) = 2 \<and>
           length (energies s ! 0) = steps + 1 \<and> None \<notin> set (energies s ! 0) \<and>
           length (energies s ! 1) = steps + 1 \<and> None \<notin> set (energies s ! 1)"
proof -
  have "\<exists>s0. sweep ext init = Inr s0"
  proof (cases "sweep ext init")
    case (Inl x)
    obtain e s where x: "x = (e, s)" by (cases x)
    from sweep_Inl_unit[OF assms(1)] Inl x obtain f where
      "f \<in> set (futures s)" "outcome f = Inl e" by blast
    with assms(2) Inl x show ?thesis by auto
  next
    case (Inr s0)
    then show ?thesis by blast
  qed
  then obtain s0 where s0: "sweep ext init = Inr s0" by blast
  have "futures s0 = F0 ext @ F1 ext" by (rule sweep_Inr_final(2)[OF s0])
  with assms(2) s0 have "\<forall>f \<in> set (F0 ext @ F1 ext). \<exists>r. outcome f = Inr r"
    by simp
  from sweep_succeeds_units[OF assms(1) this] obtain s where
    s: "sweep ext init = Inr s" "shaped s"
      "assigned (distances s) = {0..<steps + 1}"
      "assigned (hf_energies s) = {0..<steps + 1}"
      "assigned (energies s ! 0) = {0..<steps + 1}"
      "assigned (energies s ! 1) = {0..<steps + 1}"
    by blast
  from s(2) have len: "length (distances s) = steps + 1" "length (hf_energies s) = steps + 1"
    "length (energies s) = 2" "length (energies s ! 0) = steps + 1"
    "length (energies s ! 1) = steps + 1"
    by (simp_all add: shaped_def algorithms_def)
  have "None \<notin> set (distances s)" "None \<notin> set (hf_energies s)"
    "None \<notin> set (energies s ! 0)" "None \<notin> set (energies s ! 1)"
    using s(3-6) len by (simp_all add: assigned_full)
  with s(1) len show ?thesis by blast
qed

theorem C9_all_entries_assigned_witness:
  "yields_all sample_extern \<and>
   (\<exists>s. sweep sample_extern init = Inr s \<and>
           length (distances s) = steps + 1 \<and> None \<notin> set (distances s) \<and>
           length (hf_energies s) = steps + 1 \<and> None \<notin> set (hf_energies s) \<and>
           length (energies s) = 2 \<and>
           length (energies s ! 0) = steps + 1 \<and> None \<notin> set (energies s ! 0) \<and>
           length (energies s ! 1) = steps + 1 \<and> None \<notin> set (energies s ! 1))"
proof -
  have a: "yields_all sample_extern"
    by (simp add: yields_all_def sample_extern_def)
  have "solver_returns sample_extern"
    by (simp add: solver_returns_def sample_extern_def)
  then have "\<forall>f \<in> set (F0 sample_extern @ F1 sample_extern). \<exists>r. outcome f = Inr r"
    by (rule solver_returns_units)
  with sweep_futures_subset[of sample_extern]
  have b: "\<forall>f \<in> set (futures (result_state (sweep sample_extern init))). \<exists>r. outcome f = Inr r"
    by blast
  from C9_all_entries_assigned[OF a b] a show ?thesis by blast
qed

subsection \<open>The baseline of the difference plot\<close>

lemma store_result_values:
  assumes "store_result j (i, d, e, h) s = Inr s'"
  shows "set (hf_energies s') \<subseteq> insert (Some h) (set (hf_energies s))"
    and "set (energies s' ! j) \<subseteq> insert (Some e) (set (energies s ! j))"
proof -
  from assms have j: "j < length (energies s)"
    and s': "s' = s\<lparr>energies := (energies s)[j := (energies s ! j)[i := Some e]],
       hf_energies := (hf_energies s)[i := Some h],
       distances := (distances s)[i := Some d]\<rparr>"
    by (auto simp: store_result_def Let_def split: if_splits)
  show "set (hf_energies s') \<subseteq> insert (Some h) (set (hf_energies s))"
    unfolding s' using set_update_subset_insert[of "hf_energies s" i "Some h"] by simp
  show "set (energies s' ! j) \<subseteq> insert (Some e) (set (energies s ! j))"
    unfolding s' using j set_update_subset_insert[of "energies s ! j" i "Some e"] by simp
qed

lemma collect_values:
  assumes "collect j fs s = Inr s'"
  shows "set (hf_energies s') \<subseteq> set (hf_energies s) \<union>
           {Some h |h. \<exists>f \<in> set fs. \<exists>i d e. outcome f = Inr (i, d, e, h)}"
    and "set (energies s' ! j) \<subseteq> set (energies s ! j) \<union>
           {Some e |e. \<exists>f \<in> set fs. \<exists>i d h. outcome f = Inr (i, d, e, h)}"
proof -
  have "set (hf_energies s') \<subseteq> set (hf_energies s) \<union>
           {Some h |h. \<exists>f \<in> set fs. \<exists>i d e. outcome f = Inr (i, d, e, h)} \<and>
        set (energies s' ! j) \<subseteq> set (energies s ! j) \<union>
           {Some e |e. \<exists>f \<in> set fs. \<exists>i d h. outcome f = Inr (i, d, e, h)}"
    using assms
  proof (induction fs arbitrary: s)
    case Nil
    then show ?case by simp
  next
    case (Cons f fs)
    from Cons.prems obtain r s2 where
      r: "outcome f = Inr r"
      and st: "store_result j r (s\<lparr>taken := taken s @ [(j, fid f)]\<rparr>) = Inr s2"
      and rest: "collect j fs s2 = Inr s'"
      by (auto simp: Let_def split: sum.splits)
    obtain i d e h where rr: "r = (i, d, e, h)" by (cases r)
    from store_result_values[OF st[unfolded rr]]
    have v2: "set (hf_energies s2) \<subseteq> insert (Some h) (set (hf_energies s))"
      "set (energies s2 ! j) \<subseteq> insert (Some e) (set (energies s ! j))"
      by simp_all
    from Cons.IH[OF rest]
    have ih: "set (hf_energies s') \<subseteq> set (hf_energies s2) \<union>
           {Some h |h. \<exists>f \<in> set fs. \<exists>i d e. outcome f = Inr (i, d, e, h)}"
      "set (energies s' ! j) \<subseteq> set (energies s2 ! j) \<union>
           {Some e |e. \<exists>f \<in> set fs. \<exists>i d h. outcome f = Inr (i, d, e, h)}"
      by simp_all
    have "set (hf_energies s') \<subseteq> set (hf_energies s) \<union>
           {Some h |h. \<exists>g \<in> set (f # fs). \<exists>i d e. outcome g = Inr (i, d, e, h)}"
    proof
      fix v assume "v \<in> set (hf_energies s')"
      with ih(1) v2(1) have "v \<in> set (hf_energies s) \<or> v = Some h \<or>
          v \<in> {Some h |h. \<exists>f \<in> set fs. \<exists>i d e. outcome f = Inr (i, d, e, h)}"
        by blast
      with r rr show "v \<in> set (hf_energies s) \<union>
           {Some h |h. \<exists>g \<in> set (f # fs). \<exists>i d e. outcome g = Inr (i, d, e, h)}"
        by auto
    qed
    moreover have "set (energies s' ! j) \<subseteq> set (energies s ! j) \<union>
           {Some e |e. \<exists>g \<in> set (f # fs). \<exists>i d h. outcome g = Inr (i, d, e, h)}"
    proof
      fix v assume "v \<in> set (energies s' ! j)"
      with ih(2) v2(2) have "v \<in> set (energies s ! j) \<or> v = Some e \<or>
          v \<in> {Some e |e. \<exists>f \<in> set fs. \<exists>i d h. outcome f = Inr (i, d, e, h)}"
        by blast
      with r rr show "v \<in> set (energies s ! j) \<union>
           {Some e |e. \<exists>g \<in> set (f # fs). \<exists>i d h. outcome g = Inr (i, d, e, h)}"
        by auto
    qed
    ultimately show ?case by blast
  qed
  then show "set (hf_energies s') \<subseteq> set (hf_energies s) \<union>
           {Some h |h. \<exists>f \<in> set fs. \<exists>i d e. outcome f = Inr (i, d, e, h)}"
    and "set (energies s' ! j) \<subseteq> set (energies s ! j) \<union>
           {Some e |e. \<exists>f \<in> set fs. \<exists>i d h. outcome f = Inr (i, d, e, h)}"
    by simp_all
qed

text \<open>
  In a sweep in which no unit raises, \<^verbatim>\<open>hf_energies\<close> holds reference energies of units
  and \<^verbatim>\<open>energies[0]\<close> holds energies of units of the first pass.
\<close>

lemma sweep_values:
  assumes "yields_all ext" "\<forall>f \<in> set (F0 ext @ F1 ext). \<exists>r. outcome f = Inr r"
    and "sweep ext init = Inr s"
  shows "set (hf_energies s) \<subseteq> {None} \<union>
           {Some h |h. \<exists>f \<in> set (F0 ext @ F1 ext). \<exists>i d e. outcome f = Inr (i, d, e, h)}"
    and "set (energies s ! 0) \<subseteq> {None} \<union>
           {Some e |e. \<exists>f \<in> set (F0 ext). \<exists>i d h. outcome f = Inr (i, d, e, h)}"
proof -
  have set0: "set (as_completed ext (F0 ext)) = set (F0 ext)"
    and set1: "set (as_completed ext (F0 ext @ F1 ext)) = set (F0 ext @ F1 ext)"
    using assms(1) by (simp_all add: yields_all_def)
  have ok0: "\<forall>f \<in> set (as_completed ext (F0 ext)). succeeded f"
    unfolding set0 using units_succeeded[OF assms(2)] by simp
  have ok1: "\<forall>f \<in> set (as_completed ext (F0 ext @ F1 ext)). succeeded f"
    unfolding set1 using units_succeeded[OF assms(2)] by blast
  from sweep_char[of ext] obtain s1 where
    s1: "shaped s1" "energies s1 = energies init" "hf_energies s1 = hf_energies init"
    and alt: "(\<exists>x. collect 0 (as_completed ext (F0 ext)) s1 = Inl x \<and> sweep ext init = Inl x) \<or>
      (\<exists>s2 s3. collect 0 (as_completed ext (F0 ext)) s1 = Inr s2 \<and>
         energies s3 = energies s2 \<and> hf_energies s3 = hf_energies s2 \<and>
         distances s3 = distances s2 \<and>
         sweep ext init = collect 1 (as_completed ext (F0 ext @ F1 ext)) s3)"
    by blast
  have j0: "(0::nat) < 2" and j1: "(1::nat) < 2" by simp_all
  from collect_ok[OF j0 s1(1) ok0] obtain s2 where
    s2: "collect 0 (as_completed ext (F0 ext)) s1 = Inr s2" "shaped s2"
    by blast
  from alt s2(1) obtain s3 where
    s3: "energies s3 = energies s2" "hf_energies s3 = hf_energies s2"
      "distances s3 = distances s2"
      "sweep ext init = collect 1 (as_completed ext (F0 ext @ F1 ext)) s3"
    by auto
  have sh3: "shaped s3" using s2(2) s3(1-3) by (simp add: shaped_def)
  from collect_ok[OF j1 sh3 ok1] assms(3) s3(4) have
    c1: "collect 1 (as_completed ext (F0 ext @ F1 ext)) s3 = Inr s"
    and row0: "energies s ! 0 = energies s3 ! 0"
    by auto
  have init_hf: "set (hf_energies init) \<subseteq> {None}" "set (energies init ! 0) \<subseteq> {None}"
    by (auto simp: init_def algorithms_def)
  note v0 = collect_values[OF s2(1)]
  note v1 = collect_values[OF c1]
  show "set (hf_energies s) \<subseteq> {None} \<union>
           {Some h |h. \<exists>f \<in> set (F0 ext @ F1 ext). \<exists>i d e. outcome f = Inr (i, d, e, h)}"
  proof
    fix v assume "v \<in> set (hf_energies s)"
    with v1(1) v0(1) s3(2) s1(3) init_hf(1)
    have "v = None \<or>
      v \<in> {Some h |h. \<exists>f \<in> set (as_completed ext (F0 ext)). \<exists>i d e. outcome f = Inr (i, d, e, h)} \<or>
      v \<in> {Some h |h. \<exists>f \<in> set (as_completed ext (F0 ext @ F1 ext)). \<exists>i d e.
             outcome f = Inr (i, d, e, h)}"
      by auto
    then show "v \<in> {None} \<union>
           {Some h |h. \<exists>f \<in> set (F0 ext @ F1 ext). \<exists>i d e. outcome f = Inr (i, d, e, h)}"
      unfolding set0 set1 by auto
  qed
  show "set (energies s ! 0) \<subseteq> {None} \<union>
           {Some e |e. \<exists>f \<in> set (F0 ext). \<exists>i d h. outcome f = Inr (i, d, e, h)}"
  proof
    fix v assume "v \<in> set (energies s ! 0)"
    with row0 s3(1) v0(2) s1(2) init_hf(2)
    have "v = None \<or>
      v \<in> {Some e |e. \<exists>f \<in> set (as_completed ext (F0 ext)). \<exists>i d h. outcome f = Inr (i, d, e, h)}"
      by auto
    then show "v \<in> {None} \<union>
           {Some e |e. \<exists>f \<in> set (F0 ext). \<exists>i d h. outcome f = Inr (i, d, e, h)}"
      unfolding set0 by auto
  qed
qed

lemma racing_unit_values:
  "outcome (unit_future racing_extern n 0 i) = Inr (i, distance_at i, - 1, - 3)"
  "outcome (unit_future racing_extern n 1 i) = Inr (i, distance_at i, - 2, - 3)"
  by (simp_all add: unit_future_def unit_outcome_def racing_extern_def backends_def)

text \<open>
  C7. The last cell plots two curves over \<^verbatim>\<open>distances\<close>, the elementwise differences of
  \<^verbatim>\<open>hf_energies\<close> and of \<^verbatim>\<open>energies[0]\<close> with \<^verbatim>\<open>energies[1]\<close>, but \<^verbatim>\<open>energies[1]\<close> is not
  always the exact baseline. In the sweep in which the first ExactEigensolver future is
  yielded before the IQPE futures in the second pass, the ExactEigensolver unit of step 0
  returned energy \<open>-2\<close> and reference energy \<open>-3\<close>, and the IQPE unit returned energy \<open>-1\<close>:
  against the exact baseline the curves would start with \<open>-1\<close> and \<open>1\<close>. Row 1 holds the
  IQPE energy at step 0, and the curves start with \<open>-2\<close> and \<open>0\<close>.
\<close>

theorem C7_baseline_holds_iqpe_energy:
  "\<exists>s hf_curve iqpe_curve.
     sweep racing_extern init = Inr s \<and>
     arg_algorithm (futures s ! 0) = algorithms ! 0 \<and>
     outcome (futures s ! 0) = Inr (0, 1 / 2, - 1, - 3) \<and>
     arg_algorithm (futures s ! 21) = algorithms ! 1 \<and>
     outcome (futures s ! 21) = Inr (0, 1 / 2, - 2, - 3) \<and>
     difference_plot s = Inr [ (distances s, hf_curve, ''Hartree-Fock''),
                               (distances s, iqpe_curve, ''IQPE'') ] \<and>
     hf_curve = map2 minus_entry (hf_energies s) (energies s ! 1) \<and>
     iqpe_curve = map2 minus_entry (energies s ! 0) (energies s ! 1) \<and>
     length (distances s) = 21 \<and> length hf_curve = 21 \<and> length iqpe_curve = 21 \<and>
     hf_curve ! 0 = Some (- 2) \<and> iqpe_curve ! 0 = Some 0"
proof -
  let ?ext = racing_extern
  note ok = racing_extern_ok
  from racing_sweep obtain s where
    res: "sweep ?ext init = Inr s"
    and fut: "arg_algorithm (futures s ! 0) = algorithms ! 0"
      "outcome (futures s ! 0) = Inr (0, 1 / 2, - 1, - 3)"
      "arg_algorithm (futures s ! 21) = algorithms ! 1"
      "outcome (futures s ! 21) = Inr (0, 1 / 2, - 2, - 3)"
    and row1: "energies s ! 1 ! 0 = Some (- 1)"
    by blast
  from sweep_succeeds[OF ok] res have sh: "shaped s"
    and as: "assigned (hf_energies s) = {0..<steps + 1}"
      "assigned (energies s ! 0) = {0..<steps + 1}"
    by auto
  from sh have len: "length (distances s) = 21" "length (hf_energies s) = 21"
    "length (energies s ! 0) = 21" "length (energies s ! 1) = 21"
    by (simp_all add: shaped_def algorithms_def steps_def)
  have units: "\<forall>f \<in> set (F0 ?ext @ F1 ?ext). \<exists>r. outcome f = Inr r"
    by (rule solver_returns_units[OF ok(2)])
  note vals = sweep_values[OF ok(1) units res]
  have hfs: "h = - 3"
    if "f \<in> set (F0 ?ext @ F1 ?ext)" "outcome f = Inr (i, d, e, h)" for f i d e h
  proof -
    from that(1) obtain n k where "f = unit_future ?ext n 0 k \<or> f = unit_future ?ext n 1 k"
      by (auto simp: F0_def F1_def simp del: upt_Suc)
    with that(2) racing_unit_values[of n k] show ?thesis by auto
  qed
  have es: "e = - 1"
    if "f \<in> set (F0 ?ext)" "outcome f = Inr (i, d, e, h)" for f i d e h
  proof -
    from that(1) obtain n k where "f = unit_future ?ext n 0 k"
      by (auto simp: F0_def simp del: upt_Suc)
    with that(2) racing_unit_values(1)[of n k] show ?thesis by auto
  qed
  have "hf_energies s ! 0 \<in> set (hf_energies s)" using len(2) by simp
  with vals(1) hfs have "hf_energies s ! 0 = None \<or> hf_energies s ! 0 = Some (- 3)"
    by blast
  moreover have "hf_energies s ! 0 \<noteq> None"
    using as(1) by (auto simp: assigned_def)
  ultimately have hf0: "hf_energies s ! 0 = Some (- 3)" by simp
  have "energies s ! 0 ! 0 \<in> set (energies s ! 0)" using len(3) by simp
  with vals(2) es have "energies s ! 0 ! 0 = None \<or> energies s ! 0 ! 0 = Some (- 1)"
    by blast
  moreover have "energies s ! 0 ! 0 \<noteq> None"
    using as(2) by (auto simp: assigned_def)
  ultimately have row0: "energies s ! 0 ! 0 = Some (- 1)" by simp
  define hf_curve where "hf_curve = map2 minus_entry (hf_energies s) (energies s ! 1)"
  define iqpe_curve where "iqpe_curve = map2 minus_entry (energies s ! 0) (energies s ! 1)"
  have plot: "difference_plot s = Inr [ (distances s, hf_curve, ''Hartree-Fock''),
                               (distances s, iqpe_curve, ''IQPE'') ]"
    unfolding hf_curve_def iqpe_curve_def by (rule difference_plot_shaped[OF sh])
  have l: "length hf_curve = 21" "length iqpe_curve = 21"
    using len by (simp_all add: hf_curve_def iqpe_curve_def)
  have "hf_curve ! 0 = Some (- 2)"
    using len hf0 row1 by (simp add: hf_curve_def minus_entry_def)
  moreover have "iqpe_curve ! 0 = Some 0"
    using len row0 row1 by (simp add: iqpe_curve_def minus_entry_def)
  ultimately show ?thesis
    using res fut plot l len(1) hf_curve_def iqpe_curve_def by blast
qed

end
